theory Spec2Isabelle
  imports Main "HOL-Library.Sublist"
begin

section \<open>String operations of the host language\<close>

text \<open>
  Strings are byte lists. The operations below are the JavaScript string methods the
  sources call, on ASCII text: \<open>toLowerCase\<close>, \<open>includes\<close> (here \<open>str_includes\<close>),
  \<open>split\<close>, \<open>join\<close>, \<open>trim\<close>. \<open>startsWith\<close> and \<open>endsWith\<close> are \<^const>\<open>prefix\<close> and
  \<^const>\<open>suffix\<close>.
\<close>

definition toLowerChar :: "char \<Rightarrow> char" where
  "toLowerChar c =
     (case map_of (zip ''ABCDEFGHIJKLMNOPQRSTUVWXYZ'' ''abcdefghijklmnopqrstuvwxyz'') c of
        Some l \<Rightarrow> l
      | None \<Rightarrow> c)"

definition toLowerCase :: "string \<Rightarrow> string" where
  "toLowerCase s = map toLowerChar s"

fun str_includes :: "string \<Rightarrow> string \<Rightarrow> bool" where
  "str_includes [] p = (p = [])"
| "str_includes (c # cs) p = (prefix p (c # cs) \<or> str_includes cs p)"

fun split_on :: "char \<Rightarrow> string \<Rightarrow> string list" where
  "split_on d [] = [[]]"
| "split_on d (c # cs) =
     (if c = d then [] # split_on d cs
      else (case split_on d cs of
              [] \<Rightarrow> [[c]]
            | x # xs \<Rightarrow> (c # x) # xs))"

fun join :: "string \<Rightarrow> string list \<Rightarrow> string" where
  "join sep [] = []"
| "join sep [x] = x"
| "join sep (x # y # ys) = x @ sep @ join sep (y # ys)"

definition isSpace :: "char \<Rightarrow> bool" where
  "isSpace c = (c \<in> set [CHR '' '', CHR 0x09, CHR 0x0A, CHR 0x0B, CHR 0x0C, CHR 0x0D])"

definition trim :: "string \<Rightarrow> string" where
  "trim s = rev (dropWhile isSpace (rev (dropWhile isSpace s)))"

definition isAlnum :: "char \<Rightarrow> bool" where
  "isAlnum c =
     (c \<in> set ''abcdefghijklmnopqrstuvwxyzABCDEFGHIJKLMNOPQRSTUVWXYZ0123456789'')"

definition isAlpha :: "char \<Rightarrow> bool" where
  "isAlpha c = (c \<in> set ''abcdefghijklmnopqrstuvwxyzABCDEFGHIJKLMNOPQRSTUVWXYZ'')"

fun show_nat :: "nat \<Rightarrow> string" where
  "show_nat n =
     (if n < 10 then [''0123456789'' ! n]
      else show_nat (n div 10) @ [''0123456789'' ! (n mod 10)])"

declare show_nat.simps [simp del]

section \<open>The platform's URL objects\<close>

text \<open>
  The sources build \<open>URL\<close> objects with the platform's constructor and read and assign
  their components. The constructor is not code of the repository; it is modelled here
  after the URL standard for ASCII input of the shapes
  \<open>scheme://host[:port][/path][?query][#fragment]\<close> and \<open>scheme:opaque-path\<close>.
  Outside the model, and rejected by \<open>new_URL\<close> although the platform accepts them: a
  special scheme that is not followed by \<open>//\<close>, credentials, bracketed and
  percent-escaped hosts, host names with characters other than letters, digits and
  \<open>-._~!$&()*+,;=\<close>. Not modelled: the percent-escaping of path, query and fragment
  characters by the parser, backslashes as path separators, the canonical form of
  numeric hosts and of ports (a port is kept as it is written), the stripping of
  control characters. A failing constructor (it throws \<open>TypeError: Invalid URL\<close>) is
  \<open>None\<close>.

  \<open>url_params\<close> is the list held by the object's \<open>searchParams\<close>; \<open>url_query\<close> and
  \<open>url_fragment\<close> are \<open>None\<close> when the URL has none (no \<open>?\<close>, no \<open>#\<close>).
\<close>

record URL =
  url_scheme :: string
  url_host :: "string option"
  url_path :: string
  url_query :: "string option"
  url_fragment :: "string option"
  url_params :: "(string \<times> string) list"

definition specialSchemes :: "string list" where
  "specialSchemes = [''http'', ''https'', ''ftp'', ''ws'', ''wss'']"

definition validScheme :: "string \<Rightarrow> bool" where
  "validScheme s =
     (case s of
        [] \<Rightarrow> False
      | c # cs \<Rightarrow> isAlpha c \<and> list_all (\<lambda>d. isAlnum d \<or> d \<in> set ''+-.'') cs)"

definition validHost :: "string \<Rightarrow> bool" where
  "validHost h =
     (let name = takeWhile (\<lambda>c. c \<noteq> CHR '':'') h;
          port = drop (length name + 1) h
      in name \<noteq> [] \<and> list_all (\<lambda>c. isAlnum c \<or> c \<in> set ''-._~!$&()*+,;='') name
         \<and> list_all (\<lambda>c. c \<in> set ''0123456789'') port)"

text \<open>Path segments: \<open>.\<close> and \<open>..\<close> are resolved, empty segments are kept.\<close>

fun dotSegments :: "string list \<Rightarrow> string list \<Rightarrow> string list" where
  "dotSegments out [] = out"
| "dotSegments out (s # rest) =
     (if s = ''..'' then dotSegments (butlast out @ (if rest = [] then [[]] else [])) rest
      else if s = ''.'' then dotSegments (out @ (if rest = [] then [[]] else [])) rest
      else dotSegments (out @ [s]) rest)"

definition parsePath :: "string \<Rightarrow> string" where
  "parsePath p =
     concat (map (\<lambda>s. CHR ''/'' # s)
       (dotSegments [] (split_on (CHR ''/'') (if prefix ''/'' p then tl p else p))))"

subsection \<open>application/x-www-form-urlencoded\<close>

definition hexDigits :: string where
  "hexDigits = ''0123456789ABCDEF''"

definition hexValue :: "char \<Rightarrow> nat option" where
  "hexValue c =
     map_of (zip ''0123456789ABCDEFabcdef''
       [0, 1, 2, 3, 4, 5, 6, 7, 8, 9, 10, 11, 12, 13, 14, 15, 10, 11, 12, 13, 14, 15]) c"

definition formEncodeChar :: "char \<Rightarrow> string" where
  "formEncodeChar c =
     (if isAlnum c \<or> c \<in> set ''*-._'' then [c]
      else if c = CHR '' '' then ''+''
      else [CHR ''%'', hexDigits ! (of_char c div 16), hexDigits ! (of_char c mod 16)])"

definition formEncode :: "string \<Rightarrow> string" where
  "formEncode s = concat (map formEncodeChar s)"

fun percentDecode :: "string \<Rightarrow> string" where
  "percentDecode (c # h # l # rest) =
     (if c = CHR ''%'' then
        (case (hexValue h, hexValue l) of
           (Some a, Some b) \<Rightarrow> char_of (16 * a + b) # percentDecode rest
         | _ \<Rightarrow> c # percentDecode (h # l # rest))
      else c # percentDecode (h # l # rest))"
| "percentDecode s = s"

definition formDecode :: "string \<Rightarrow> string" where
  "formDecode s = percentDecode (map (\<lambda>c. if c = CHR ''+'' then CHR '' '' else c) s)"

definition parseParams :: "string \<Rightarrow> (string \<times> string) list" where
  "parseParams q =
     map (\<lambda>piece.
            let name = takeWhile (\<lambda>c. c \<noteq> CHR ''='') piece;
                val = drop (length name + 1) piece
            in (formDecode name, formDecode val))
       (filter (\<lambda>piece. piece \<noteq> []) (split_on (CHR ''&'') q))"

definition serializeParams :: "(string \<times> string) list \<Rightarrow> string" where
  "serializeParams ps = join ''&'' (map (\<lambda>(k, v). formEncode k @ ''='' @ formEncode v) ps)"

subsection \<open>The constructor\<close>

definition afterAuthority :: "string \<Rightarrow> string \<times> string option \<times> string option" where
  "afterAuthority r =
     (let p = takeWhile (\<lambda>c. c \<notin> set ''?#'') r;
          r1 = drop (length p) r;
          q = (if prefix ''?'' r1 then Some (takeWhile (\<lambda>c. c \<noteq> CHR ''#'') (tl r1)) else None);
          r2 = dropWhile (\<lambda>c. c \<noteq> CHR ''#'') r1;
          f = (if prefix ''#'' r2 then Some (tl r2) else None)
      in (p, q, f))"

definition new_URL :: "string \<Rightarrow> URL option" where
  "new_URL input =
     (let s = takeWhile (\<lambda>c. c \<noteq> CHR '':'') input;
          rest = drop (length s + 1) input;
          sch = toLowerCase s
      in if CHR '':'' \<in> set input \<and> validScheme s then
           (if prefix ''//'' rest then
              (let r = drop 2 rest;
                   auth = takeWhile (\<lambda>c. c \<notin> set ''/?#'') r;
                   (p, q, f) = afterAuthority (drop (length auth) r)
               in if sch \<in> set specialSchemes then
                    (if validHost auth then
                       Some \<lparr>url_scheme = sch, url_host = Some (toLowerCase auth),
                             url_path = parsePath p, url_query = q, url_fragment = f,
                             url_params = parseParams (case q of None \<Rightarrow> [] | Some x \<Rightarrow> x)\<rparr>
                     else None)
                  else if auth = [] \<or> validHost auth then
                    Some \<lparr>url_scheme = sch, url_host = Some auth,
                          url_path = (if p = [] then [] else parsePath p),
                          url_query = q, url_fragment = f,
                          url_params = parseParams (case q of None \<Rightarrow> [] | Some x \<Rightarrow> x)\<rparr>
                  else None)
            else if sch \<in> set specialSchemes then None
            else
              (let (p, q, f) = afterAuthority rest
               in Some \<lparr>url_scheme = sch, url_host = None, url_path = p, url_query = q,
                        url_fragment = f,
                        url_params = parseParams (case q of None \<Rightarrow> [] | Some x \<Rightarrow> x)\<rparr>))
         else None)"

subsection \<open>Getters and setters\<close>

definition protocol :: "URL \<Rightarrow> string" where
  "protocol u = url_scheme u @ '':''"

definition origin :: "URL \<Rightarrow> string" where
  "origin u =
     (case url_host u of
        Some h \<Rightarrow>
          if url_scheme u \<in> set specialSchemes then url_scheme u @ ''://'' @ h else ''null''
      | None \<Rightarrow> ''null'')"

definition pathname :: "URL \<Rightarrow> string" where
  "pathname u = url_path u"

definition search :: "URL \<Rightarrow> string" where
  "search u =
     (case url_query u of None \<Rightarrow> [] | Some q \<Rightarrow> if q = [] then [] else CHR ''?'' # q)"

definition hash :: "URL \<Rightarrow> string" where
  "hash u =
     (case url_fragment u of None \<Rightarrow> [] | Some f \<Rightarrow> if f = [] then [] else CHR ''#'' # f)"

definition href :: "URL \<Rightarrow> string" where
  "href u =
     url_scheme u @ '':'' @ (case url_host u of None \<Rightarrow> [] | Some h \<Rightarrow> ''//'' @ h)
     @ url_path u
     @ (case url_query u of None \<Rightarrow> [] | Some q \<Rightarrow> CHR ''?'' # q)
     @ (case url_fragment u of None \<Rightarrow> [] | Some f \<Rightarrow> CHR ''#'' # f)"

text \<open>\<open>url.searchParams.toString()\<close>\<close>

definition searchParams_toString :: "URL \<Rightarrow> string" where
  "searchParams_toString u = serializeParams (url_params u)"

text \<open>
  \<open>url.searchParams.delete(name)\<close>: every pair of that name leaves the list; the URL's
  query becomes the serialised list, or no query when that is empty.
\<close>

definition searchParams_delete :: "string \<Rightarrow> URL \<Rightarrow> URL" where
  "searchParams_delete name u =
     (let ps = filter (\<lambda>(k, v). k \<noteq> name) (url_params u);
          ser = serializeParams ps
      in u\<lparr>url_params := ps, url_query := (if ser = [] then None else Some ser)\<rparr>)"

text \<open>\<open>url.hash = ''\<close> removes the fragment.\<close>

definition clear_hash :: "URL \<Rightarrow> URL" where
  "clear_hash u = u\<lparr>url_fragment := None\<rparr>"

text \<open>\<open>url.pathname = v\<close>: ignored on an opaque path, else \<open>v\<close> is parsed as a path.\<close>

definition set_pathname :: "string \<Rightarrow> URL \<Rightarrow> URL" where
  "set_pathname v u =
     (if url_host u = None then u
      else if v = [] \<and> url_scheme u \<notin> set specialSchemes then u\<lparr>url_path := []\<rparr>
      else u\<lparr>url_path := parsePath v\<rparr>)"

section \<open>link-scorer.ts\<close>

definition docPatterns :: "string list" where
  "docPatterns =
     [''/docs'', ''/guide'', ''/reference'', ''/api'', ''/tutorial'', ''/learn'', ''/manual'',
      ''/handbook'', ''/help'', ''/faq'', ''/getting-started'', ''/quickstart'']"

definition skipPatterns :: "string list" where
  "skipPatterns =
     [''/login'', ''/signup'', ''/auth'', ''/admin'', ''/cart'', ''/checkout'', ''/account'',
      ''/settings'', ''/profile'', ''/search'', ''/tag/'', ''/category/'', ''/author/'',
      ''/page/'']"

definition skipExtensions :: "string list" where
  "skipExtensions =
     [''.zip'', ''.tar'', ''.gz'', ''.exe'', ''.dmg'', ''.pkg'', ''.deb'', ''.rpm'', ''.mp3'',
      ''.mp4'', ''.avi'', ''.mov'', ''.jpg'', ''.jpeg'', ''.png'', ''.gif'', ''.svg'', ''.ico'']"

definition docExtensions :: "string list" where
  "docExtensions = [''.html'', ''.htm'', ''.md'', ''.txt'']"

text \<open>
  The body of the \<open>try\<close> block of \<open>scoreLink\<close>, once both URLs are parsed: the base score
  and the ten adjustments, in the order of the source.
\<close>

definition rawScore :: "string \<Rightarrow> URL \<Rightarrow> URL \<Rightarrow> int" where
  "rawScore link linkUrl sourceUrlObj =
     (let score = 50;
          score = (if origin linkUrl = origin sourceUrlObj then score + 20 else score);
          sourcePath = join ''/'' (butlast (split_on (CHR ''/'') (pathname sourceUrlObj)));
          score = (if sourcePath \<noteq> [] \<and> prefix sourcePath (pathname linkUrl)
                   then score + 10 else score);
          score = (if list_ex (\<lambda>p. str_includes (toLowerCase (pathname linkUrl)) p) docPatterns
                   then score + 15 else score);
          score = (if list_ex (\<lambda>p. str_includes (toLowerCase (pathname linkUrl)) p) skipPatterns
                   then score - 30 else score);
          score = (if pathname linkUrl = pathname sourceUrlObj \<and> hash linkUrl \<noteq> []
                   then score - 40 else score);
          score = (if length link > 200 then score - 10 else score);
          paramCount = length (split_on (CHR ''&'') (searchParams_toString linkUrl));
          score = (if paramCount > 3 then score - 15 else score);
          pathDepth = length (filter (\<lambda>s. s \<noteq> []) (split_on (CHR ''/'') (pathname linkUrl)));
          score = (if pathDepth \<le> 3 then score + 5 else score);
          pathname' = toLowerCase (pathname linkUrl);
          score = (if list_ex (\<lambda>ext. suffix ext pathname') skipExtensions
                   then score - 50 else score);
          score = (if list_ex (\<lambda>ext. suffix ext pathname') docExtensions
                   then score + 5 else score)
      in score)"

definition scoreLink :: "string \<Rightarrow> string \<Rightarrow> int" where
  "scoreLink link sourceUrl =
     (let score =
        (case new_URL link of
           None \<Rightarrow> 10
         | Some linkUrl \<Rightarrow>
             (case new_URL sourceUrl of
                None \<Rightarrow> 10
              | Some sourceUrlObj \<Rightarrow> rawScore link linkUrl sourceUrlObj))
      in max 0 (min 100 score))"

definition staticPaths :: "string list" where
  "staticPaths =
     [''/static/'', ''/assets/'', ''/dist/'', ''/build/'', ''/_next/'', ''/node_modules/'']"

definition shouldSkipUrl :: "string \<Rightarrow> bool" where
  "shouldSkipUrl url =
     (case new_URL url of
        None \<Rightarrow> True
      | Some urlObj \<Rightarrow>
          if protocol urlObj \<notin> set [''http:'', ''https:''] then True
          else if list_ex (\<lambda>p. str_includes (pathname urlObj) p) staticPaths then True
          else if list_ex (\<lambda>p. str_includes (toLowerCase (search urlObj)) p)
                    [''utm_'', ''ref='', ''source='', ''campaign='']
          then False
          else False)"

definition trackingParams :: "string list" where
  "trackingParams =
     [''utm_source'', ''utm_medium'', ''utm_campaign'', ''utm_term'', ''utm_content'', ''ref'',
      ''source'', ''campaign'', ''fbclid'', ''gclid'']"

text \<open>\<open>pathname.replace(/\/$/, '')\<close>: one slash at the end of the string is removed.\<close>

definition stripTrailingSlash :: "string \<Rightarrow> string" where
  "stripTrailingSlash p = (if suffix ''/'' p then butlast p else p)"

text \<open>The body of the \<open>try\<close> block of \<open>normalizeUrl\<close>, on the parsed object.\<close>

definition normalizeObj :: "URL \<Rightarrow> URL" where
  "normalizeObj urlObj =
     (let u1 = foldl (\<lambda>u param. searchParams_delete param u) urlObj trackingParams;
          u2 = clear_hash u1
      in if pathname u2 \<noteq> ''/'' \<and> \<not> str_includes (pathname u2) ''.''
         then set_pathname (stripTrailingSlash (pathname u2)) u2
         else u2)"

definition normalizeUrl :: "string \<Rightarrow> string" where
  "normalizeUrl url =
     (case new_URL url of
        None \<Rightarrow> url
      | Some urlObj \<Rightarrow> href (normalizeObj urlObj))"

section \<open>robots.ts\<close>

record RobotsRule =
  userAgent :: string
  allow :: "string list"
  disallow :: "string list"

record RobotsChecker =
  checkerOrigin :: string
  checkerUserAgent :: string
  rules :: "RobotsRule list"
  loaded :: bool

definition new_RobotsChecker :: "string \<Rightarrow> string \<Rightarrow> RobotsChecker" where
  "new_RobotsChecker orig ua =
     \<lparr>checkerOrigin = orig, checkerUserAgent = ua, rules = [], loaded = False\<rparr>"

subsection \<open>The regular expressions that \<open>pathMatches\<close> builds\<close>

text \<open>
  \<open>pathMatches\<close> writes the source text of a regular expression and hands it to the
  platform's \<open>RegExp\<close>. The fragment of the regular-expression language that it can
  produce is modelled: an optional \<open>^\<close> in front, then literal characters, escaped
  syntax characters \<open>\c\<close> and \<open>.*\<close>, and an optional unescaped \<open>$\<close> at the very end.
  \<open>compileRegex\<close> is \<open>None\<close> on any other text.
\<close>

datatype rx = Lit char | AnyStar

definition syntaxChars :: string where
  "syntaxChars = ''.+?^${}()|[]'' @ [CHR 0x5C]"

fun compileItems :: "string \<Rightarrow> (rx list \<times> bool) option" where
  "compileItems [] = Some ([], False)"
| "compileItems [c] =
     (if c = CHR ''$'' then Some ([], True)
      else if c \<in> set syntaxChars \<or> c = CHR ''*'' then None
      else Some ([Lit c], False))"
| "compileItems (c # d # rest) =
     (if c = CHR 0x5C then
        (if d \<in> set syntaxChars then
           (case compileItems rest of
              None \<Rightarrow> None
            | Some (items, e) \<Rightarrow> Some (Lit d # items, e))
         else None)
      else if c = CHR ''.'' \<and> d = CHR ''*'' then
        (case compileItems rest of
           None \<Rightarrow> None
         | Some (items, e) \<Rightarrow> Some (AnyStar # items, e))
      else if c \<in> set syntaxChars \<or> c = CHR ''*'' then None
      else
        (case compileItems (d # rest) of
           None \<Rightarrow> None
         | Some (items, e) \<Rightarrow> Some (Lit c # items, e)))"

definition compileRegex :: "string \<Rightarrow> (bool \<times> rx list \<times> bool) option" where
  "compileRegex src =
     (if prefix ''^'' src then map_option (\<lambda>r. (True, r)) (compileItems (tl src))
      else map_option (\<lambda>r. (False, r)) (compileItems src))"

text \<open>
  Matching from the current position; \<open>e\<close> says that the match must reach the end of
  the subject. The dot does not match a line terminator.
\<close>

fun matchHere :: "rx list \<Rightarrow> bool \<Rightarrow> string \<Rightarrow> bool" where
  "matchHere [] e s = (if e then s = [] else True)"
| "matchHere (Lit c # r) e [] = False"
| "matchHere (Lit c # r) e (x # xs) = (x = c \<and> matchHere r e xs)"
| "matchHere (AnyStar # r) e [] = matchHere r e []"
| "matchHere (AnyStar # r) e (x # xs) =
     (matchHere r e (x # xs)
      \<or> (x \<notin> set [CHR 0x0A, CHR 0x0D] \<and> matchHere (AnyStar # r) e xs))"

definition regexTest :: "bool \<times> rx list \<times> bool \<Rightarrow> string \<Rightarrow> bool" where
  "regexTest re s =
     (case re of
        (anchored, items, e) \<Rightarrow>
          if anchored then matchHere items e s
          else list_ex (\<lambda>i. matchHere items e (drop i s)) [0..<Suc (length s)])"

subsection \<open>\<open>RobotsChecker\<close>\<close>

text \<open>\<open>pattern.replace(/[.+?^${}()|[\]\\]/g, '\\$&')\<close>\<close>

definition escapeRegex :: "string \<Rightarrow> string" where
  "escapeRegex pattern =
     concat (map (\<lambda>c. if c \<in> set syntaxChars then [CHR 0x5C, c] else [c]) pattern)"

text \<open>\<open>.replace(/\*/g, '.*')\<close>\<close>

definition replaceStars :: "string \<Rightarrow> string" where
  "replaceStars s = concat (map (\<lambda>c. if c = CHR ''*'' then ''.*'' else [c]) s)"

definition pathMatches :: "string \<Rightarrow> string \<Rightarrow> bool" where
  "pathMatches pathname' pattern =
     (if pattern = [] then False
      else
        (let regexPattern = replaceStars (escapeRegex pattern);
             regexPattern =
               (if suffix ''$'' regexPattern then butlast regexPattern @ ''$''
                else CHR ''^'' # regexPattern)
         in case compileRegex regexPattern of
              Some re \<Rightarrow> regexTest re pathname'
            | None \<Rightarrow>
                prefix (filter (\<lambda>c. c \<noteq> CHR ''*'' \<and> c \<noteq> CHR ''$'') pattern) pathname'))"

text \<open>The loop of \<open>parse\<close> over the lines, with \<open>rules\<close> and \<open>currentRule\<close> as arguments.\<close>

definition pushCurrent :: "RobotsRule list \<Rightarrow> RobotsRule option \<Rightarrow> RobotsRule list" where
  "pushCurrent rs currentRule = (case currentRule of None \<Rightarrow> rs | Some r \<Rightarrow> rs @ [r])"

fun parseLines :: "string list \<Rightarrow> RobotsRule list \<Rightarrow> RobotsRule option \<Rightarrow> RobotsRule list" where
  "parseLines [] rs currentRule = pushCurrent rs currentRule"
| "parseLines (line # rest) rs currentRule =
     (let trimmed = trim line
      in if trimmed = [] \<or> prefix ''#'' trimmed then parseLines rest rs currentRule
         else if CHR '':'' \<notin> set trimmed then parseLines rest rs currentRule
         else
           (let colonIndex = length (takeWhile (\<lambda>c. c \<noteq> CHR '':'') trimmed);
                directive = toLowerCase (trim (take colonIndex trimmed));
                val = trim (drop (colonIndex + 1) trimmed)
            in if directive = ''user-agent'' then
                 parseLines rest (pushCurrent rs currentRule)
                   (Some \<lparr>userAgent = val, allow = [], disallow = []\<rparr>)
               else if directive = ''allow'' then
                 (case currentRule of
                    Some r \<Rightarrow>
                      if val \<noteq> [] then parseLines rest rs (Some (r\<lparr>allow := allow r @ [val]\<rparr>))
                      else parseLines rest rs currentRule
                  | None \<Rightarrow> parseLines rest rs currentRule)
               else if directive = ''disallow'' then
                 (case currentRule of
                    Some r \<Rightarrow>
                      if val \<noteq> [] then
                        parseLines rest rs (Some (r\<lparr>disallow := disallow r @ [val]\<rparr>))
                      else parseLines rest rs currentRule
                  | None \<Rightarrow> parseLines rest rs currentRule)
               else parseLines rest rs currentRule))"

definition parse :: "string \<Rightarrow> RobotsRule list" where
  "parse txt = parseLines (split_on (CHR 0x0A) txt) [] None"

text \<open>
  What a \<open>fetch\<close> gives: it throws (network error, timeout, a URL the platform rejects),
  or it returns a response with a status, a status text, the \<open>content-type\<close> header and
  the body.
\<close>

datatype fetch_result =
    FetchThrows string
  | Response nat string "string option" string

definition response_ok :: "nat \<Rightarrow> bool" where
  "response_ok st = (200 \<le> st \<and> st \<le> 299)"

definition load :: "(string \<Rightarrow> fetch_result) \<Rightarrow> RobotsChecker \<Rightarrow> RobotsChecker" where
  "load fetch c =
     (if loaded c then c
      else
        (case fetch (checkerOrigin c @ ''/robots.txt'') of
           Response st stText ctype body \<Rightarrow>
             if response_ok st then c\<lparr>rules := parse body, loaded := True\<rparr>
             else c\<lparr>loaded := True\<rparr>
         | FetchThrows msg \<Rightarrow> c\<lparr>loaded := True\<rparr>))"

text \<open>
  \<open>isAllowed\<close>: \<open>None\<close> when \<open>new URL(url)\<close> throws. The two nested loops return
  \<open>false\<close> at the first matching disallow pattern that no longer allow pattern of the
  same group overrides.
\<close>

definition applicableRules :: "RobotsChecker \<Rightarrow> RobotsRule list" where
  "applicableRules c =
     filter (\<lambda>r. userAgent r = ''*''
                 \<or> str_includes (toLowerCase (checkerUserAgent c)) (toLowerCase (userAgent r)))
       (rules c)"

definition ruleAllows :: "string \<Rightarrow> RobotsRule \<Rightarrow> bool" where
  "ruleAllows pathname' rule =
     list_all (\<lambda>d. if pathMatches pathname' d
                    then list_ex (\<lambda>a. pathMatches pathname' a \<and> length a > length d) (allow rule)
                    else True)
       (disallow rule)"

definition isAllowed :: "RobotsChecker \<Rightarrow> string \<Rightarrow> bool option" where
  "isAllowed c url =
     (if \<not> loaded c then Some True
      else
        (case new_URL url of
           None \<Rightarrow> None
         | Some u \<Rightarrow> Some (list_all (ruleAllows (pathname u)) (applicableRules c))))"

section \<open>crawler.ts\<close>

text \<open>
  Token counts, page counts and subrequest counts are natural numbers; the limits of
  the configuration are integers (the caller may pass any number, also a negative one).
  Wall-clock values (\<open>timestamp\<close>, \<open>loadedAt\<close>) and the politeness delay, which only
  waits, are left out of the state.
\<close>

record CrawlConfig =
  seedUrls :: "string list"
  targetTokens :: int
  minTokensPerPage :: int
  maxPages :: int
  sameDomainOnly :: bool
  delayMs :: nat
  respectRobotsTxt :: bool
  maxSubrequests :: "int option"

record PrioritizedUrl =
  url :: string
  score :: int
  depth :: nat
  referrer :: string

record CrawlError =
  errorUrl :: string
  error :: string

record FileInfo =
  path :: string
  content :: string
  size' :: nat
  tokenEstimate :: nat
  mimeType :: "string option"

record LoadedPage = FileInfo +
  links :: "string list option"
  metadata :: "string \<rightharpoonup> string"

text \<open>What an extractor returns (\<open>ExtractedContent\<close>).\<close>

record ExtractedContent =
  extractedText :: string
  extractedTitle :: "string option"
  extractedLinks :: "string list option"
  extractedMetadata :: "string \<rightharpoonup> string"

text \<open>
  The crawler object: its three constructor arguments. The registry is taken as the
  function from the declared content type, the body and the URL to what the chosen
  extractor returns, or to the message of the error it throws.
\<close>

record Crawler =
  config :: CrawlConfig
  extractorRegistry :: "string \<Rightarrow> string \<Rightarrow> string \<Rightarrow> string + ExtractedContent"
  crawlerUserAgent :: string

record CrawlState =
  visited :: "string set"
  queue :: "PrioritizedUrl list"
  loadedContent :: "LoadedPage list"
  errors :: "CrawlError list"
  currentTokens :: nat
  robotsCache :: "string \<rightharpoonup> RobotsChecker"
  subrequestCount :: nat

definition initialState :: CrawlState where
  "initialState =
     \<lparr>visited = {}, queue = [], loadedContent = [], errors = [], currentTokens = 0,
      robotsCache = Map.empty, subrequestCount = 0\<rparr>"

record CrawlMetadata =
  source :: string
  pagesLoaded :: nat
  pagesSkipped :: int
  pagesInQueue :: nat
  reportedErrors :: "CrawlError list option"
  reportedTargetTokens :: int
  actualTokens :: nat
  crawlConfig :: "bool \<times> int \<times> int \<times> int option"
  subrequestsUsed :: nat
  stoppedBySubrequestLimit :: bool

record 'm LoadedSource =
  sourceContent :: string
  totalTokens :: int
  fileCount :: int
  files :: "FileInfo list"
  sourceMetadata :: 'm

definition estimateTokens :: "string \<Rightarrow> nat" where
  "estimateTokens txt = (length txt + 3) div 4"

text \<open>\<open>loadPage\<close>: \<open>Inl\<close> carries the message of the error it throws.\<close>

definition loadPage :: "(string \<Rightarrow> fetch_result) \<Rightarrow> Crawler \<Rightarrow> string \<Rightarrow> string + LoadedPage" where
  "loadPage fetch this url' =
     (case fetch url' of
        FetchThrows msg \<Rightarrow> Inl msg
      | Response st stText ctype body \<Rightarrow>
          if \<not> response_ok st then Inl (''HTTP '' @ show_nat st @ '': '' @ stText)
          else
            (let contentType =
                   (case ctype of
                      None \<Rightarrow> ''text/plain''
                    | Some c \<Rightarrow> if c = [] then ''text/plain'' else c)
             in case extractorRegistry this contentType body url' of
                  Inl msg \<Rightarrow> Inl msg
                | Inr extracted \<Rightarrow>
                    Inr \<lparr>path = url', content = extractedText extracted, size' = length body,
                         tokenEstimate = estimateTokens (extractedText extracted),
                         mimeType = Some (trim (takeWhile (\<lambda>c. c \<noteq> CHR '';'') contentType)),
                         links = extractedLinks extracted,
                         metadata = (\<lambda>k. if k = ''title'' then extractedTitle extracted else None)
                                    ++ extractedMetadata extracted\<rparr>))"

text \<open>
  \<open>new URL(link, sourceUrl)\<close>. \<open>queueLinks\<close> reaches it only with a base that has
  parsed and a link that \<open>shouldSkipUrl\<close> has let through, which is an absolute URL:
  the result is then the link's own parse. A relative link is resolved for the basic
  forms.
\<close>

definition new_URL_base :: "string \<Rightarrow> string \<Rightarrow> URL option" where
  "new_URL_base link base =
     (case new_URL base of
        None \<Rightarrow> None
      | Some b \<Rightarrow>
          (case new_URL link of
             Some u \<Rightarrow> Some u
           | None \<Rightarrow>
               if CHR '':'' \<in> set (takeWhile (\<lambda>c. c \<notin> set ''/?#'') link) \<or> url_host b = None
               then None
               else if prefix ''//'' link then new_URL (url_scheme b @ '':'' @ link)
               else
                 (let (p, q, f) = afterAuthority link;
                      dir = rev (dropWhile (\<lambda>c. c \<noteq> CHR ''/'') (rev (url_path b)));
                      q' = (if p = [] \<and> q = None then url_query b else q)
                  in Some (b\<lparr>url_path := (if p = [] then url_path b
                                            else if prefix ''/'' p then parsePath p
                                            else parsePath (dir @ p)),
                             url_query := q', url_fragment := f,
                             url_params := parseParams (case q' of None \<Rightarrow> [] | Some x \<Rightarrow> x)\<rparr>))))"

text \<open>One turn of the loop of \<open>queueLinks\<close>.\<close>

definition queueLink :: "CrawlConfig \<Rightarrow> string \<Rightarrow> string \<Rightarrow> nat \<Rightarrow> CrawlState \<Rightarrow> string \<Rightarrow> CrawlState" where
  "queueLink cfg sourceOrigin sourceUrl sourceDepth s link =
     (if shouldSkipUrl link then s
      else
        (case new_URL_base link sourceUrl of
           None \<Rightarrow> s
         | Some r \<Rightarrow>
             (let resolved = normalizeUrl (href r)
              in if resolved \<in> visited s then s
                 else if list_ex (\<lambda>q. url q = resolved) (queue s) then s
                 else
                   (case new_URL resolved of
                      None \<Rightarrow> s
                    | Some ru \<Rightarrow>
                        if sameDomainOnly cfg \<and> origin ru \<noteq> sourceOrigin then s
                        else
                          (let sc = scoreLink resolved sourceUrl
                           in if sc < 20 then s
                              else s\<lparr>queue := queue s @
                                     [\<lparr>url = resolved, score = sc, depth = sourceDepth + 1,
                                       referrer = sourceUrl\<rparr>]\<rparr>)))))"

text \<open>\<open>queueLinks\<close>: \<open>None\<close> when \<open>new URL(sourceUrl)\<close> throws.\<close>

definition queueLinks :: "CrawlConfig \<Rightarrow> CrawlState \<Rightarrow> string list \<Rightarrow> string \<Rightarrow> nat \<Rightarrow> CrawlState option" where
  "queueLinks cfg s ls sourceUrl sourceDepth =
     (case new_URL sourceUrl of
        None \<Rightarrow> None
      | Some src \<Rightarrow> Some (foldl (queueLink cfg (origin src) sourceUrl sourceDepth) s ls))"

text \<open>\<open>checkRobots\<close>: \<open>None\<close> when \<open>new URL(url)\<close> throws.\<close>

definition checkRobots :: "(string \<Rightarrow> fetch_result) \<Rightarrow> Crawler \<Rightarrow> CrawlState \<Rightarrow> string \<Rightarrow> (bool \<times> CrawlState) option" where
  "checkRobots fetch this s url' =
     (case new_URL url' of
        None \<Rightarrow> None
      | Some u \<Rightarrow>
          (case robotsCache s (origin u) of
             Some checker \<Rightarrow> map_option (\<lambda>allowed. (allowed, s)) (isAllowed checker url')
           | None \<Rightarrow>
               (let checker = load fetch (new_RobotsChecker (origin u) (crawlerUserAgent this))
                in map_option
                     (\<lambda>allowed. (allowed, s\<lparr>robotsCache := (robotsCache s)(origin u \<mapsto> checker)\<rparr>))
                     (isAllowed checker url'))))"

definition pushError :: "string \<Rightarrow> string \<Rightarrow> CrawlState \<Rightarrow> CrawlState" where
  "pushError u msg s = s\<lparr>errors := errors s @ [\<lparr>errorUrl = u, error = msg\<rparr>]\<rparr>"

text \<open>The \<open>try\<close> block of the loop body and its \<open>catch\<close>.\<close>

definition fetchAndAccept :: "(string \<Rightarrow> fetch_result) \<Rightarrow> Crawler \<Rightarrow> PrioritizedUrl \<Rightarrow> CrawlState \<Rightarrow> CrawlState" where
  "fetchAndAccept fetch this next s =
     (case loadPage fetch this (url next) of
        Inl msg \<Rightarrow> pushError (url next) msg s
      | Inr result \<Rightarrow>
          (let s1 = s\<lparr>subrequestCount := subrequestCount s + 1\<rparr>
           in if int (tokenEstimate result) \<ge> minTokensPerPage (config this) then
                (let s2 = s1\<lparr>loadedContent := loadedContent s1 @ [result],
                              currentTokens := currentTokens s1 + tokenEstimate result\<rparr>
                 in case links result of
                      None \<Rightarrow> s2
                    | Some ls \<Rightarrow>
                        (case queueLinks (config this) s2 ls (url next) (depth next) of
                           None \<Rightarrow> pushError (url next) ''Invalid URL'' s2
                         | Some s3 \<Rightarrow> s3))
              else s1))"

text \<open>The loop condition and one turn of the loop. \<open>Inl\<close>: the crawl throws.\<close>

definition loopCond :: "CrawlConfig \<Rightarrow> CrawlState \<Rightarrow> bool" where
  "loopCond cfg s =
     (int (currentTokens s) < targetTokens cfg
      \<and> queue s \<noteq> []
      \<and> int (length (loadedContent s)) < maxPages cfg
      \<and> (case maxSubrequests cfg of None \<Rightarrow> True | Some maxSubs \<Rightarrow> int (subrequestCount s) < maxSubs))"

definition sortQueue :: "PrioritizedUrl list \<Rightarrow> PrioritizedUrl list" where
  "sortQueue q = sort_key (\<lambda>a. - score a) q"

definition crawlStep :: "(string \<Rightarrow> fetch_result) \<Rightarrow> Crawler \<Rightarrow> CrawlState \<Rightarrow> string + CrawlState" where
  "crawlStep fetch this s =
     (case sortQueue (queue s) of
        [] \<Rightarrow> Inl ''queue.shift() on an empty queue''
      | next # rest \<Rightarrow>
          (let s1 = s\<lparr>queue := rest\<rparr>
           in if url next \<in> visited s1 then Inr s1
              else
                (let s2 = s1\<lparr>visited := insert (url next) (visited s1)\<rparr>
                 in if respectRobotsTxt (config this) then
                      (case checkRobots fetch this s2 (url next) of
                         None \<Rightarrow> Inl ''Invalid URL''
                       | Some (allowed, s3) \<Rightarrow>
                           if \<not> allowed
                           then Inr (pushError (url next) ''Blocked by robots.txt'' s3)
                           else Inr (fetchAndAccept fetch this next s3))
                    else Inr (fetchAndAccept fetch this next s2))))"

text \<open>
  The \<open>while\<close> loop. It ends: a turn either accepts a page, and at most \<open>maxPages\<close>
  pages are accepted, or leaves the accepted pages alone and shortens the queue.
\<close>

lemma length_sortQueue: "length (sortQueue q) = length q"
  by (simp add: sortQueue_def)

lemma queueLink_frame:
  "\<exists>xs. queueLink cfg so su sd s link = s\<lparr>queue := queue s @ xs\<rparr>"
proof -
  have triv: "\<exists>xs. s = s\<lparr>queue := queue s @ xs\<rparr>"
    by (rule exI [of _ "[]"]) simp
  show ?thesis
    unfolding queueLink_def Let_def
    using triv by (auto split: option.splits)
qed

lemma queueLinks_fold_frame:
  "\<exists>xs. foldl (queueLink cfg so su sd) s ls = s\<lparr>queue := queue s @ xs\<rparr>"
proof (induction ls arbitrary: s)
  case Nil
  show ?case by (rule exI [of _ "[]"]) simp
next
  case (Cons l ls)
  obtain xs where a: "queueLink cfg so su sd s l = s\<lparr>queue := queue s @ xs\<rparr>"
    using queueLink_frame by blast
  obtain ys where b: "foldl (queueLink cfg so su sd) (s\<lparr>queue := queue s @ xs\<rparr>) ls
      = (s\<lparr>queue := queue s @ xs\<rparr>)\<lparr>queue := queue (s\<lparr>queue := queue s @ xs\<rparr>) @ ys\<rparr>"
    using Cons.IH by blast
  show ?case
    by (rule exI [of _ "xs @ ys"]) (simp add: a b)
qed

lemma queueLinks_frame:
  "queueLinks cfg s ls su sd = Some s' \<Longrightarrow> \<exists>xs. s' = s\<lparr>queue := queue s @ xs\<rparr>"
  unfolding queueLinks_def using queueLinks_fold_frame
  by (auto split: option.splits)

lemma checkRobots_frame:
  "checkRobots fetch this s u = Some (b, s') \<Longrightarrow> \<exists>m. s' = s\<lparr>robotsCache := m\<rparr>"
proof -
  have triv: "\<exists>m. s = s\<lparr>robotsCache := m\<rparr>"
    by (rule exI [of _ "robotsCache s"]) simp
  show "checkRobots fetch this s u = Some (b, s') \<Longrightarrow> ?thesis"
    unfolding checkRobots_def Let_def
    using triv by (auto split: option.splits)
qed

lemma fetchAndAccept_progress:
  "(loadedContent (fetchAndAccept fetch this next s) = loadedContent s
      \<and> queue (fetchAndAccept fetch this next s) = queue s)
   \<or> length (loadedContent (fetchAndAccept fetch this next s)) = Suc (length (loadedContent s))"
  unfolding fetchAndAccept_def Let_def pushError_def
  by (auto split: sum.splits option.splits dest!: queueLinks_frame)

lemma crawlStep_progress:
  assumes "crawlStep fetch this s = Inr s'"
  shows "(length (loadedContent s') = length (loadedContent s) \<and> length (queue s') < length (queue s))
         \<or> length (loadedContent s') = Suc (length (loadedContent s))"
proof (cases "sortQueue (queue s)")
  case Nil
  with assms show ?thesis by (simp add: crawlStep_def)
next
  case (Cons nxt rest)
  have len: "length rest < length (queue s)"
    using length_sortQueue [of "queue s"] Cons by simp
  show ?thesis
  proof (cases "url nxt \<in> visited s")
    case True
    with assms Cons len show ?thesis by (auto simp: crawlStep_def)
  next
    case False
    let ?s2 = "s\<lparr>queue := rest, visited := insert (url nxt) (visited s)\<rparr>"
    show ?thesis
    proof (cases "respectRobotsTxt (config this)")
      case noRobots: False
      with assms Cons False have "s' = fetchAndAccept fetch this nxt ?s2"
        by (auto simp: crawlStep_def Let_def)
      with fetchAndAccept_progress [of fetch this nxt ?s2] len show ?thesis by auto
    next
      case True
      with assms Cons False obtain allowed s3 where
        cr: "checkRobots fetch this ?s2 (url nxt) = Some (allowed, s3)"
        and s': "s' = (if \<not> allowed then pushError (url nxt) ''Blocked by robots.txt'' s3
                       else fetchAndAccept fetch this nxt s3)"
        by (auto simp: crawlStep_def Let_def split: option.splits if_splits)
      from checkRobots_frame [OF cr] obtain m where s3: "s3 = ?s2\<lparr>robotsCache := m\<rparr>" by blast
      show ?thesis
      proof (cases allowed)
        case True
        with s' have "s' = fetchAndAccept fetch this nxt s3" by simp
        with fetchAndAccept_progress [of fetch this nxt s3] len s3 show ?thesis by auto
      next
        case False
        with s' s3 len show ?thesis by (simp add: pushError_def)
      qed
    qed
  qed
qed

function crawlLoop :: "(string \<Rightarrow> fetch_result) \<Rightarrow> Crawler \<Rightarrow> CrawlState \<Rightarrow> string + CrawlState" where
  "crawlLoop fetch this s =
     (if loopCond (config this) s then
        (case crawlStep fetch this s of
           Inl e \<Rightarrow> Inl e
         | Inr s' \<Rightarrow> crawlLoop fetch this s')
      else Inr s)"
  by pat_completeness auto
termination
proof (relation "inv_image (less_than <*lex*> less_than)
    (\<lambda>(fetch, this, s). (nat (maxPages (config this) - int (length (loadedContent s))),
                          length (queue s)))")
  show "wf (inv_image (less_than <*lex*> less_than)
    (\<lambda>(fetch, this, s). (nat (maxPages (config this) - int (length (loadedContent s))),
                          length (queue s))))"
    by (intro wf_inv_image wf_lex_prod wf_less_than)
next
  fix fetch this s s'
  assume c: "loopCond (config this) s" and st: "crawlStep fetch this s = Inr s'"
  from c have lt: "int (length (loadedContent s)) < maxPages (config this)"
    by (simp add: loopCond_def)
  from crawlStep_progress [OF st] lt
  show "((fetch, this, s'), (fetch, this, s)) \<in> inv_image (less_than <*lex*> less_than)
    (\<lambda>(fetch, this, s). (nat (maxPages (config this) - int (length (loadedContent s))),
                          length (queue s)))"
    by auto
qed

declare crawlLoop.simps [simp del]

definition pageTitle :: "LoadedPage \<Rightarrow> string" where
  "pageTitle f =
     (case metadata f ''title'' of
        None \<Rightarrow> path f
      | Some t \<Rightarrow> if t = [] then path f else t)"

definition buildResult :: "Crawler \<Rightarrow> CrawlState \<Rightarrow> CrawlMetadata LoadedSource" where
  "buildResult this s =
     \<lparr>sourceContent =
        join [CHR 0x0A]
          (map (\<lambda>f. ''# '' @ pageTitle f @ [CHR 0x0A] @ ''Source: '' @ path f
                     @ [CHR 0x0A, CHR 0x0A] @ content f @ [CHR 0x0A, CHR 0x0A] @ ''---''
                     @ [CHR 0x0A])
             (loadedContent s)),
      totalTokens = int (currentTokens s),
      fileCount = int (length (loadedContent s)),
      files =
        map (\<lambda>p. \<lparr>path = path p, content = content p, size' = size' p,
                    tokenEstimate = tokenEstimate p, mimeType = mimeType p\<rparr>)
          (loadedContent s),
      sourceMetadata =
        \<lparr>source = join '' + '' (seedUrls (config this)),
         pagesLoaded = length (loadedContent s),
         pagesSkipped = int (card (visited s)) - int (length (loadedContent s)),
         pagesInQueue = length (queue s),
         reportedErrors = (if errors s \<noteq> [] then Some (errors s) else None),
         reportedTargetTokens = targetTokens (config this),
         actualTokens = currentTokens s,
         crawlConfig =
           (sameDomainOnly (config this), maxPages (config this),
            minTokensPerPage (config this), maxSubrequests (config this)),
         subrequestsUsed = subrequestCount s,
         stoppedBySubrequestLimit =
           (case maxSubrequests (config this) of
              None \<Rightarrow> False
            | Some maxSubs \<Rightarrow> int (subrequestCount s) \<ge> maxSubs)\<rparr>\<rparr>"

definition seedQueue :: "CrawlConfig \<Rightarrow> CrawlState \<Rightarrow> CrawlState" where
  "seedQueue cfg s =
     foldl (\<lambda>s u. s\<lparr>queue := queue s @
                      [\<lparr>url = normalizeUrl u, score = 100, depth = 0, referrer = []\<rparr>]\<rparr>)
       s (seedUrls cfg)"

text \<open>\<open>crawl\<close>: \<open>Inl\<close> carries the message of the error the crawl throws.\<close>

definition crawl :: "(string \<Rightarrow> fetch_result) \<Rightarrow> Crawler \<Rightarrow> string + CrawlMetadata LoadedSource" where
  "crawl fetch this =
     (case crawlLoop fetch this (seedQueue (config this) initialState) of
        Inl e \<Rightarrow> Inl e
      | Inr s \<Rightarrow> Inr (buildResult this s))"

section \<open>handlers.ts\<close>

record CombinedMetadata =
  combinedSource :: string

definition show_int :: "int \<Rightarrow> string" where
  "show_int i = (if i < 0 then ''-'' @ show_nat (nat (- i)) else show_nat (nat i))"

text \<open>
  \<open>combineLoadedSources\<close>; \<open>now\<close> is the text of \<open>new Date().toISOString()\<close>. A source
  without a name is labelled \<open>undefined\<close>, as the template string does.
\<close>

definition combineLoadedSources ::
  "'m LoadedSource list \<Rightarrow> string list \<Rightarrow> string \<Rightarrow> CombinedMetadata LoadedSource" where
  "combineLoadedSources sources sourceNames now =
     (let allFiles = concat (map files sources);
          totalTokens' = foldl (\<lambda>sum s. sum + totalTokens s) 0 sources;
          fileCount' = foldl (\<lambda>sum s. sum + fileCount s) 0 sources;
          header =
            [''# Combined Context'',
             ''# Sources: '' @ join '', '' sourceNames,
             ''# Total Files: '' @ show_int fileCount',
             ''# Generated: '' @ now,
             []];
          sections =
            concat (map (\<lambda>i. [''## Source '' @ show_nat (i + 1) @ '': ''
                                 @ (if i < length sourceNames then sourceNames ! i
                                    else ''undefined''),
                               [],
                               sourceContent (sources ! i),
                               []])
                      [0..<length sources])
      in \<lparr>sourceContent = join [CHR 0x0A] (header @ sections),
          totalTokens = totalTokens',
          fileCount = fileCount',
          files = allFiles,
          sourceMetadata = \<lparr>combinedSource = join '' + '' sourceNames\<rparr>\<rparr>)"

section \<open>Scenarios\<close>

text \<open>
  The sites and crawlers of the examples. \<open>textOnly\<close> is a registry whose extractor
  passes the body through and reports no links; \<open>withLinks\<close> reports the given links
  for the given page and none elsewhere.
\<close>

definition textOnly :: "string \<Rightarrow> string \<Rightarrow> string \<Rightarrow> string + ExtractedContent" where
  "textOnly contentType body u =
     Inr \<lparr>extractedText = body, extractedTitle = None, extractedLinks = None,
          extractedMetadata = Map.empty\<rparr>"

definition withLinks ::
  "string \<Rightarrow> string list \<Rightarrow> string \<Rightarrow> string \<Rightarrow> string \<Rightarrow> string + ExtractedContent" where
  "withLinks page ls contentType body u =
     Inr \<lparr>extractedText = body, extractedTitle = None,
          extractedLinks = (if u = page then Some ls else Some []),
          extractedMetadata = Map.empty\<rparr>"

definition crawlerFor :: "CrawlConfig \<Rightarrow> Crawler" where
  "crawlerFor cfg = \<lparr>config = cfg, extractorRegistry = textOnly, crawlerUserAgent = ''TestBot/1.0''\<rparr>"

text \<open>A site on which every request is answered with status 500.\<close>

definition allFail :: "string \<Rightarrow> fetch_result" where
  "allFail u = Response 500 ''Internal Server Error'' None []"

text \<open>A site whose pages all have a body of 240 characters, that is 60 tokens.\<close>

definition sixtyTokens :: "string \<Rightarrow> fetch_result" where
  "sixtyTokens u = Response 200 ''OK'' (Some ''text/plain'') (replicate 240 (CHR ''a''))"

text \<open>A site whose \<open>robots.txt\<close> closes every path to every crawler.\<close>

definition closedSite :: "string \<Rightarrow> fetch_result" where
  "closedSite u =
     (if u = ''https://a.com/robots.txt''
      then Response 200 ''OK'' (Some ''text/plain'')
             (''User-agent: *'' @ [CHR 0x0A] @ ''Disallow: /'' @ [CHR 0x0A])
      else Response 200 ''OK'' (Some ''text/plain'') (replicate 240 (CHR ''a'')))"

text \<open>A site whose \<open>robots.txt\<close> closes exactly the path \<open>/private\<close>, with an end anchor.\<close>

definition anchoredSite :: "string \<Rightarrow> fetch_result" where
  "anchoredSite u =
     Response 200 ''OK'' (Some ''text/plain'')
       (''User-agent: *'' @ [CHR 0x0A] @ ''Disallow: /private$'' @ [CHR 0x0A])"

definition twoSeedsCapOne :: CrawlConfig where
  "twoSeedsCapOne =
     \<lparr>seedUrls = [''https://a.com/x'', ''https://a.com/y''], targetTokens = 1000,
      minTokensPerPage = 0, maxPages = 10, sameDomainOnly = True, delayMs = 0,
      respectRobotsTxt = False, maxSubrequests = Some 1\<rparr>"

text \<open>Configurations and crawlers of the examples.\<close>

definition tinyPages :: CrawlConfig where
  "tinyPages =
     \<lparr>seedUrls = [''https://a.com/x''], targetTokens = 1000,
      minTokensPerPage = 500, maxPages = 10, sameDomainOnly = True, delayMs = 0,
      respectRobotsTxt = False, maxSubrequests = None\<rparr>"

definition threeSeeds :: CrawlConfig where
  "threeSeeds =
     \<lparr>seedUrls = [''https://a.com/x'', ''https://a.com/y'', ''https://a.com/z''],
      targetTokens = 100, minTokensPerPage = 0, maxPages = 10, sameDomainOnly = True,
      delayMs = 0, respectRobotsTxt = False, maxSubrequests = None\<rparr>"

definition threeLinks :: Crawler where
  "threeLinks =
     \<lparr>config =
        \<lparr>seedUrls = [''https://a.com/''], targetTokens = 1000, minTokensPerPage = 0,
         maxPages = 10, sameDomainOnly = True, delayMs = 0, respectRobotsTxt = False,
         maxSubrequests = Some 1\<rparr>,
      extractorRegistry =
        withLinks ''https://a.com/''
          [''https://a.com/docs/a'', ''https://a.com/docs/b'', ''https://a.com/docs/c''],
      crawlerUserAgent = ''TestBot/1.0''\<rparr>"

definition targetReached :: CrawlConfig where
  "targetReached =
     \<lparr>seedUrls = [''https://a.com/x''], targetTokens = 50, minTokensPerPage = 0,
      maxPages = 10, sameDomainOnly = True, delayMs = 0, respectRobotsTxt = False,
      maxSubrequests = Some 1\<rparr>"

definition closedCrawl :: CrawlConfig where
  "closedCrawl =
     \<lparr>seedUrls = [''https://a.com/x''], targetTokens = 1000, minTokensPerPage = 0,
      maxPages = 10, sameDomainOnly = True, delayMs = 0, respectRobotsTxt = True,
      maxSubrequests = Some 1\<rparr>"

definition seedTwice :: CrawlConfig where
  "seedTwice =
     \<lparr>seedUrls = [''https://a.com/x'', ''https://a.com/x#top''], targetTokens = 1000,
      minTokensPerPage = 0, maxPages = 10, sameDomainOnly = True, delayMs = 0,
      respectRobotsTxt = False, maxSubrequests = None\<rparr>"

text \<open>A state whose queue holds one URL, which has been visited.\<close>

definition revisit :: CrawlState where
  "revisit =
     initialState
       \<lparr>queue := [\<lparr>url = ''https://a.com/x'', score = 100, depth = 0, referrer = []\<rparr>],
        visited := {''https://a.com/x''}\<rparr>"

section \<open>Invariants of the crawl loop\<close>

definition dedupInv :: "CrawlState \<Rightarrow> bool" where
  "dedupInv s =
     (distinct (map path (loadedContent s))
      \<and> set (map path (loadedContent s)) \<subseteq> visited s
      \<and> distinct (map errorUrl (errors s))
      \<and> set (map errorUrl (errors s)) \<subseteq> visited s)"

definition countInv :: "CrawlConfig \<Rightarrow> CrawlState \<Rightarrow> bool" where
  "countInv cfg s =
     (length (loadedContent s) \<le> subrequestCount s
      \<and> (case maxSubrequests cfg of
            None \<Rightarrow> True
          | Some maxSubs \<Rightarrow> int (subrequestCount s) \<le> max 0 maxSubs))"

definition tokenInv :: "CrawlConfig \<Rightarrow> CrawlState \<Rightarrow> bool" where
  "tokenInv cfg s =
     (currentTokens s = sum_list (map tokenEstimate (loadedContent s))
      \<and> (loadedContent s = []
           \<or> int (sum_list (map tokenEstimate (butlast (loadedContent s)))) < targetTokens cfg))"

section \<open>Properties of the URL normaliser and the link scorer\<close>
















lemma foldl_add_sum_list:
  "foldl (\<lambda>sum s. sum + f s) (a :: int) xs = a + sum_list (map f xs)"
  by (induction xs arbitrary: a) simp_all








text \<open>
  C7 (\<open>normalizeUrl\<close> is idempotent and returns malformed input unchanged). The code
  removes one slash at the end of the path, so a path that ends in two slashes is
  normalised to a path that ends in one, and normalising the result again removes that
  one: on \<open>https://x.com/a//\<close> the second application changes the first one's result.
\<close>

theorem normalizeUrl_twice_differs:
  "normalizeUrl ''https://x.com/a//'' = ''https://x.com/a/''
   \<and> normalizeUrl (normalizeUrl ''https://x.com/a//'') = ''https://x.com/a''
   \<and> normalizeUrl (normalizeUrl ''https://x.com/a//'') \<noteq> normalizeUrl ''https://x.com/a//''"
  by code_simp






section \<open>Properties of the corpus assembler\<close>

text \<open>
  C10. The combined source's token total is the sum of the inputs' token totals and its
  file count the sum of their file counts, for every list of inputs; two sources of 100
  and 250 tokens combine to 350.
\<close>

theorem combineLoadedSources_sums:
  "totalTokens (combineLoadedSources sources sourceNames now) = sum_list (map totalTokens sources)
   \<and> fileCount (combineLoadedSources sources sourceNames now) = sum_list (map fileCount sources)
   \<and> totalTokens (combineLoadedSources [a\<lparr>totalTokens := 100\<rparr>, b\<lparr>totalTokens := 250\<rparr>]
        sourceNames now) = 350
   \<and> fileCount (combineLoadedSources [a, b] sourceNames now) = fileCount a + fileCount b"
  by (simp add: combineLoadedSources_def Let_def foldl_add_sum_list)

section \<open>Properties of the crawler\<close>

lemma loadPage_path: "loadPage fetch this u = Inr page \<Longrightarrow> path page = u"
  unfolding loadPage_def Let_def
  by (auto split: fetch_result.splits if_splits sum.splits)

lemma fetchAndAccept_cases:
  obtains
    (failed) msg where "loadPage fetch this (url nxt) = Inl msg"
      and "fetchAndAccept fetch this nxt s = pushError (url nxt) msg s"
  | (small) page where "loadPage fetch this (url nxt) = Inr page"
      and "int (tokenEstimate page) < minTokensPerPage (config this)"
      and "fetchAndAccept fetch this nxt s = s\<lparr>subrequestCount := subrequestCount s + 1\<rparr>"
  | (accepted) page xs where "loadPage fetch this (url nxt) = Inr page"
      and "minTokensPerPage (config this) \<le> int (tokenEstimate page)"
      and "fetchAndAccept fetch this nxt s =
             s\<lparr>subrequestCount := subrequestCount s + 1,
               loadedContent := loadedContent s @ [page],
               currentTokens := currentTokens s + tokenEstimate page,
               queue := queue s @ xs\<rparr>"
  | (thrown) page where "loadPage fetch this (url nxt) = Inr page"
      and "minTokensPerPage (config this) \<le> int (tokenEstimate page)"
      and "fetchAndAccept fetch this nxt s =
             pushError (url nxt) ''Invalid URL''
               (s\<lparr>subrequestCount := subrequestCount s + 1,
                  loadedContent := loadedContent s @ [page],
                  currentTokens := currentTokens s + tokenEstimate page\<rparr>)"
proof (cases "loadPage fetch this (url nxt)")
  case (Inl msg)
  then show ?thesis using failed by (simp add: fetchAndAccept_def)
next
  case (Inr page)
  show ?thesis
  proof (cases "minTokensPerPage (config this) \<le> int (tokenEstimate page)")
    case False
    with Inr show ?thesis using small [of page] by (simp add: fetchAndAccept_def Let_def)
  next
    case True
    let ?s2 = "s\<lparr>subrequestCount := subrequestCount s + 1,
                  loadedContent := loadedContent s @ [page],
                  currentTokens := currentTokens s + tokenEstimate page\<rparr>"
    show ?thesis
    proof (cases "links page")
      case None
      with Inr True show ?thesis using accepted [of page "[]"]
        by (simp add: fetchAndAccept_def Let_def)
    next
      case (Some ls)
      show ?thesis
      proof (cases "queueLinks (config this) ?s2 ls (url nxt) (depth nxt)")
        case None
        with Inr True Some show ?thesis using thrown [of page]
          by (simp add: fetchAndAccept_def Let_def)
      next
        case (Some s3)
        from queueLinks_frame [OF Some] obtain xs where "s3 = ?s2\<lparr>queue := queue ?s2 @ xs\<rparr>"
          by blast
        with Inr True Some \<open>links page = Some ls\<close> show ?thesis using accepted [of page xs]
          by (simp add: fetchAndAccept_def Let_def)
      qed
    qed
  qed
qed

lemma crawlStep_cases:
  assumes "crawlStep fetch this s = Inr s'"
  obtains
    (skip) nxt rest where "sortQueue (queue s) = nxt # rest" and "url nxt \<in> visited s"
      and "s' = s\<lparr>queue := rest\<rparr>"
  | (blocked) nxt rest m where "sortQueue (queue s) = nxt # rest" and "url nxt \<notin> visited s"
      and "s' = pushError (url nxt) ''Blocked by robots.txt''
                  (s\<lparr>queue := rest, visited := insert (url nxt) (visited s), robotsCache := m\<rparr>)"
  | (fetched) nxt rest m where "sortQueue (queue s) = nxt # rest" and "url nxt \<notin> visited s"
      and "s' = fetchAndAccept fetch this nxt
                  (s\<lparr>queue := rest, visited := insert (url nxt) (visited s), robotsCache := m\<rparr>)"
proof (cases "sortQueue (queue s)")
  case Nil
  with assms show ?thesis by (simp add: crawlStep_def)
next
  case (Cons nxt rest)
  show ?thesis
  proof (cases "url nxt \<in> visited s")
    case True
    with assms Cons show ?thesis using skip [of nxt rest] by (simp add: crawlStep_def)
  next
    case False
    let ?s2 = "s\<lparr>queue := rest, visited := insert (url nxt) (visited s)\<rparr>"
    show ?thesis
    proof (cases "respectRobotsTxt (config this)")
      case noRobots: False
      have "?s2 = ?s2\<lparr>robotsCache := robotsCache s\<rparr>" by simp
      with assms Cons False noRobots show ?thesis using fetched [of nxt rest "robotsCache s"]
        by (simp add: crawlStep_def Let_def)
    next
      case True
      with assms Cons False obtain allowed s3 where
        cr: "checkRobots fetch this ?s2 (url nxt) = Some (allowed, s3)"
        and s': "s' = (if \<not> allowed then pushError (url nxt) ''Blocked by robots.txt'' s3
                       else fetchAndAccept fetch this nxt s3)"
        by (auto simp: crawlStep_def Let_def split: option.splits if_splits)
      from checkRobots_frame [OF cr] obtain m where s3: "s3 = ?s2\<lparr>robotsCache := m\<rparr>" by blast
      show ?thesis
      proof (cases allowed)
        case True
        with s' s3 Cons False show ?thesis using fetched [of nxt rest m] by simp
      next
        case notAllowed: False
        with s' s3 Cons False show ?thesis using blocked [of nxt rest m] by simp
      qed
    qed
  qed
qed

lemma crawlLoop_invariant:
  assumes step: "\<And>s s'. P s \<Longrightarrow> loopCond (config this) s \<Longrightarrow> crawlStep fetch this s = Inr s' \<Longrightarrow> P s'"
    and "P s" and "crawlLoop fetch this s = Inr s'"
  shows "P s' \<and> \<not> loopCond (config this) s'"
  using assms
proof (induction fetch this s rule: crawlLoop.induct)
  case (1 fetch this s)
  show ?case
  proof (cases "loopCond (config this) s")
    case False
    with "1.prems"(2,3) show ?thesis by (simp add: crawlLoop.simps [of fetch this s])
  next
    case True
    with "1.prems"(3) obtain s1 where st: "crawlStep fetch this s = Inr s1"
      and rest: "crawlLoop fetch this s1 = Inr s'"
      by (auto simp: crawlLoop.simps [of fetch this s] split: sum.splits)
    from "1.prems"(1) [OF "1.prems"(2) True st] have "P s1" .
    from "1.IH" [OF True st "1.prems"(1) this rest] show ?thesis .
  qed
qed

lemma dedupInv_step:
  assumes "dedupInv s" and "crawlStep fetch this s = Inr s'"
  shows "dedupInv s'"
  using assms(2)
proof (cases rule: crawlStep_cases)
  case (skip nxt rest)
  with assms(1) show ?thesis by (simp add: dedupInv_def)
next
  case (blocked nxt rest m)
  with assms(1) show ?thesis by (auto simp: dedupInv_def pushError_def)
next
  case (fetched nxt rest m)
  let ?s2 = "s\<lparr>queue := rest, visited := insert (url nxt) (visited s), robotsCache := m\<rparr>"
  show ?thesis
  proof (cases rule: fetchAndAccept_cases [of fetch this nxt ?s2])
    case (failed msg)
    with fetched assms(1) show ?thesis by (auto simp: dedupInv_def pushError_def)
  next
    case (small page)
    with fetched assms(1) show ?thesis by (auto simp: dedupInv_def)
  next
    case (accepted page xs)
    with fetched assms(1) loadPage_path [OF accepted(1)] show ?thesis
      by (auto simp: dedupInv_def)
  next
    case (thrown page)
    with fetched assms(1) loadPage_path [OF thrown(1)] show ?thesis
      by (auto simp: dedupInv_def pushError_def)
  qed
qed

lemma countInv_step:
  assumes "countInv (config this) s" and "loopCond (config this) s"
    and "crawlStep fetch this s = Inr s'"
  shows "countInv (config this) s'"
proof -
  from assms(1) have le: "length (loadedContent s) \<le> subrequestCount s"
    by (simp add: countInv_def)
  have cap: "int (subrequestCount s) + 1 \<le> max 0 maxSubs \<and> int (subrequestCount s) \<le> max 0 maxSubs"
    if "maxSubrequests (config this) = Some maxSubs" for maxSubs
    using assms(2) that by (simp add: loopCond_def)
  have keep: "countInv (config this) t"
    if "loadedContent t = loadedContent s" and "subrequestCount t = subrequestCount s" for t
    using assms(1) that by (simp add: countInv_def split: option.splits)
  have bump: "countInv (config this) t"
    if "length (loadedContent t) \<le> Suc (length (loadedContent s))"
      and "subrequestCount t = Suc (subrequestCount s)" for t
  proof (cases "maxSubrequests (config this)")
    case None
    with le that show ?thesis by (simp add: countInv_def)
  next
    case (Some maxSubs)
    with le that cap [OF Some] show ?thesis by (simp add: countInv_def)
  qed
  from assms(3) show ?thesis
  proof (cases rule: crawlStep_cases)
    case (skip nxt rest)
    then show ?thesis by (intro keep) simp_all
  next
    case (blocked nxt rest m)
    then show ?thesis by (intro keep) (simp_all add: pushError_def)
  next
    case (fetched nxt rest m)
    let ?s2 = "s\<lparr>queue := rest, visited := insert (url nxt) (visited s), robotsCache := m\<rparr>"
    show ?thesis
    proof (cases rule: fetchAndAccept_cases [of fetch this nxt ?s2])
      case (failed msg)
      with fetched show ?thesis by (intro keep) (simp_all add: pushError_def)
    next
      case (small page)
      with fetched show ?thesis by (intro bump) simp_all
    next
      case (accepted page xs)
      with fetched show ?thesis by (intro bump) simp_all
    next
      case (thrown page)
      with fetched show ?thesis by (intro bump) (simp_all add: pushError_def)
    qed
  qed
qed

lemma tokenInv_step:
  assumes "tokenInv (config this) s" and "loopCond (config this) s"
    and "crawlStep fetch this s = Inr s'"
  shows "tokenInv (config this) s'"
proof -
  from assms(1) have sum: "currentTokens s = sum_list (map tokenEstimate (loadedContent s))"
    by (simp add: tokenInv_def)
  from assms(2) have below: "int (currentTokens s) < targetTokens (config this)"
    by (simp add: loopCond_def)
  have keep: "tokenInv (config this) t"
    if "loadedContent t = loadedContent s" and "currentTokens t = currentTokens s" for t
    using assms(1) that by (simp add: tokenInv_def)
  have grow: "tokenInv (config this) t"
    if "loadedContent t = loadedContent s @ [page]"
      and "currentTokens t = currentTokens s + tokenEstimate page" for t page
    using sum below that by (simp add: tokenInv_def)
  from assms(3) show ?thesis
  proof (cases rule: crawlStep_cases)
    case (skip nxt rest)
    then show ?thesis by (intro keep) simp_all
  next
    case (blocked nxt rest m)
    then show ?thesis by (intro keep) (simp_all add: pushError_def)
  next
    case (fetched nxt rest m)
    let ?s2 = "s\<lparr>queue := rest, visited := insert (url nxt) (visited s), robotsCache := m\<rparr>"
    show ?thesis
    proof (cases rule: fetchAndAccept_cases [of fetch this nxt ?s2])
      case (failed msg)
      with fetched show ?thesis by (intro keep) (simp_all add: pushError_def)
    next
      case (small page)
      with fetched show ?thesis by (intro keep) simp_all
    next
      case (accepted page xs)
      with fetched show ?thesis by (intro grow [of _ page]) simp_all
    next
      case (thrown page)
      with fetched show ?thesis by (intro grow [of _ page]) (simp_all add: pushError_def)
    qed
  qed
qed

lemma seedQueue_frame: "\<exists>xs. seedQueue cfg s = s\<lparr>queue := queue s @ xs\<rparr>"
proof -
  have "\<exists>xs. foldl (\<lambda>s u. s\<lparr>queue := queue s @
                      [\<lparr>url = normalizeUrl u, score = 100, depth = 0, referrer = []\<rparr>]\<rparr>) s us
          = s\<lparr>queue := queue s @ xs\<rparr>" for us
  proof (induction us arbitrary: s)
    case Nil
    show ?case by (rule exI [of _ "[]"]) simp
  next
    case (Cons u us)
    let ?e = "\<lparr>url = normalizeUrl u, score = 100, depth = 0, referrer = []\<rparr>"
    from Cons.IH [of "s\<lparr>queue := queue s @ [?e]\<rparr>"] obtain xs where
      "foldl (\<lambda>s u. s\<lparr>queue := queue s @
                      [\<lparr>url = normalizeUrl u, score = 100, depth = 0, referrer = []\<rparr>]\<rparr>)
         (s\<lparr>queue := queue s @ [?e]\<rparr>) us = s\<lparr>queue := queue s @ [?e]\<rparr>\<lparr>queue := queue (s\<lparr>queue := queue s @ [?e]\<rparr>) @ xs\<rparr>"
      by blast
    then show ?case
      by (intro exI [of _ "?e # xs"]) simp
  qed
  then show ?thesis by (simp add: seedQueue_def)
qed

lemma crawl_final:
  assumes "crawl fetch this = Inr r"
  obtains s where "r = buildResult this s" and "dedupInv s" and "countInv (config this) s"
    and "\<not> loopCond (config this) s" and "tokenInv (config this) s"
proof -
  from assms obtain s where loop: "crawlLoop fetch this (seedQueue (config this) initialState) = Inr s"
    and r: "r = buildResult this s"
    by (auto simp: crawl_def split: sum.splits)
  obtain xs where s0: "seedQueue (config this) initialState = initialState\<lparr>queue := queue initialState @ xs\<rparr>"
    using seedQueue_frame by blast
  have d0: "dedupInv (seedQueue (config this) initialState)"
    unfolding s0 by (simp add: dedupInv_def initialState_def)
  have c0: "countInv (config this) (seedQueue (config this) initialState)"
    unfolding s0 by (simp add: countInv_def initialState_def split: option.splits)
  have t0: "tokenInv (config this) (seedQueue (config this) initialState)"
    unfolding s0 by (simp add: tokenInv_def initialState_def)
  have "dedupInv s \<and> \<not> loopCond (config this) s"
    by (rule crawlLoop_invariant [where P = dedupInv, OF _ d0 loop]) (rule dedupInv_step)
  moreover have "countInv (config this) s \<and> \<not> loopCond (config this) s"
    by (rule crawlLoop_invariant [where P = "countInv (config this)", OF _ c0 loop])
       (rule countInv_step)
  moreover have "tokenInv (config this) s \<and> \<not> loopCond (config this) s"
    by (rule crawlLoop_invariant [where P = "tokenInv (config this)", OF _ t0 loop])
       (rule tokenInv_step)
  ultimately show ?thesis using that r by blast
qed

lemma queueLink_dedup:
  assumes "distinct (map url (queue s))"
  shows "distinct (map url (queue (queueLink cfg so su sd s link)))
         \<and> visited (queueLink cfg so su sd s link) = visited s
         \<and> set (queue (queueLink cfg so su sd s link))
             \<subseteq> set (queue s) \<union> {q. url q \<notin> visited s}"
  using assms unfolding queueLink_def Let_def
  by (auto simp: list_ex_iff split: option.splits)

lemma queueLinks_fold_dedup:
  assumes "distinct (map url (queue s))"
  shows "distinct (map url (queue (foldl (queueLink cfg so su sd) s ls)))
         \<and> visited (foldl (queueLink cfg so su sd) s ls) = visited s
         \<and> set (queue (foldl (queueLink cfg so su sd) s ls))
             \<subseteq> set (queue s) \<union> {q. url q \<notin> visited s}"
  using assms
proof (induction ls arbitrary: s)
  case Nil
  then show ?case by simp
next
  case (Cons l ls)
  note one = queueLink_dedup [OF Cons.prems, of cfg so su sd l]
  from Cons.IH [of "queueLink cfg so su sd s l"] one
  show ?case by auto
qed

lemma buildResult_fields:
  "map path (files (buildResult this s)) = map path (loadedContent s)"
  "reportedErrors (sourceMetadata (buildResult this s)) = (if errors s \<noteq> [] then Some (errors s) else None)"
  "map tokenEstimate (files (buildResult this s)) = map tokenEstimate (loadedContent s)"
  "files (buildResult this s) = [] \<longleftrightarrow> loadedContent s = []"
  "fileCount (buildResult this s) = int (length (loadedContent s))"
  "totalTokens (buildResult this s) = int (currentTokens s)"
  "actualTokens (sourceMetadata (buildResult this s)) = currentTokens s"
  "pagesLoaded (sourceMetadata (buildResult this s)) = length (loadedContent s)"
  "pagesInQueue (sourceMetadata (buildResult this s)) = length (queue s)"
  "reportedTargetTokens (sourceMetadata (buildResult this s)) = targetTokens (config this)"
  "subrequestsUsed (sourceMetadata (buildResult this s)) = subrequestCount s"
  "stoppedBySubrequestLimit (sourceMetadata (buildResult this s)) =
     (case maxSubrequests (config this) of
        None \<Rightarrow> False
      | Some maxSubs \<Rightarrow> maxSubs \<le> int (subrequestCount s))"
  by (simp_all add: buildResult_def comp_def)

lemma buildResult_butlast:
  "map tokenEstimate (butlast (files (buildResult this s)))
     = map tokenEstimate (butlast (loadedContent s))"
  by (simp add: buildResult_def map_butlast [symmetric] comp_def)

lemma visited_seedQueue: "visited (seedQueue cfg s) = visited s"
proof -
  obtain xs where "seedQueue cfg s = s\<lparr>queue := queue s @ xs\<rparr>"
    using seedQueue_frame by blast
  then show ?thesis by simp
qed

text \<open>The runs of the examples, evaluated.\<close>

lemma threeLinks_runs: "\<not> isl (crawl sixtyTokens threeLinks)"
  by code_simp

lemma threeLinks_example:
  "(case crawl sixtyTokens threeLinks of
      Inl e \<Rightarrow> False
    | Inr r \<Rightarrow>
        stoppedBySubrequestLimit (sourceMetadata r) = True \<and> fileCount r = 1
        \<and> pagesInQueue (sourceMetadata r) = 3)"
  by code_simp

lemma threeSeeds_runs: "\<not> isl (crawl sixtyTokens (crawlerFor threeSeeds))"
  by code_simp

lemma threeSeeds_example:
  "(case crawl sixtyTokens (crawlerFor threeSeeds) of
      Inl e \<Rightarrow> False
    | Inr r \<Rightarrow> fileCount r = 2 \<and> totalTokens r = 120 \<and> pagesInQueue (sourceMetadata r) = 1)"
  by code_simp

lemma revisit_queue:
  "sortQueue (queue revisit) = [\<lparr>url = ''https://a.com/x'', score = 100, depth = 0, referrer = []\<rparr>]
   \<and> ''https://a.com/x'' \<in> visited revisit"
  by code_simp

lemma threeLinks_queueLinks:
  "queueLinks (config threeLinks) initialState
     [''https://a.com/docs/a'', ''https://a.com/docs/a''] ''https://a.com/'' 0 \<noteq> None
   \<and> distinct (map url (queue initialState))"
  by code_simp

lemma tinyPages_queue:
  "sortQueue (queue (seedQueue tinyPages initialState))
     = [\<lparr>url = ''https://a.com/x'', score = 100, depth = 0, referrer = []\<rparr>]"
  by code_simp

lemma tinyPages_unvisited: "''https://a.com/x'' \<notin> visited (seedQueue tinyPages initialState)"
  by (simp add: visited_seedQueue initialState_def)

lemma tinyPages_loads: "\<not> isl (loadPage sixtyTokens (crawlerFor tinyPages) ''https://a.com/x'')"
  by code_simp

lemma tinyPages_tokens:
  "tokenEstimate (projr (loadPage sixtyTokens (crawlerFor tinyPages) ''https://a.com/x'')) = 60"
  by code_simp

lemma tinyPages_config:
  "minTokensPerPage (config (crawlerFor tinyPages)) = 500
   \<and> respectRobotsTxt (config (crawlerFor tinyPages)) = False"
  by code_simp

text \<open>
  C1 (every outbound network call counts toward the subrequest count, failed and
  robots-blocked fetches included, so that the crawl stops once the count reaches the
  cap). The code increments the count only after \<open>loadPage\<close> has returned. With a cap
  of one subrequest and two seeds on a site that answers every request with status 500,
  the crawl fetches both seeds (two error entries) and reports no subrequest used and no
  stop by the subrequest limit; with a seed that \<open>robots.txt\<close> closes, the fetch of
  \<open>robots.txt\<close> is not counted either.
\<close>

theorem failed_fetches_are_not_counted:
  "(case crawl allFail (crawlerFor twoSeedsCapOne) of
      Inl e \<Rightarrow> False
    | Inr r \<Rightarrow>
        reportedErrors (sourceMetadata r) =
          Some [\<lparr>errorUrl = ''https://a.com/x'', error = ''HTTP 500: Internal Server Error''\<rparr>,
                \<lparr>errorUrl = ''https://a.com/y'', error = ''HTTP 500: Internal Server Error''\<rparr>]
        \<and> subrequestsUsed (sourceMetadata r) = 0
        \<and> stoppedBySubrequestLimit (sourceMetadata r) = False)
   \<and> (case crawl closedSite (crawlerFor closedCrawl) of
        Inl e \<Rightarrow> False
      | Inr r \<Rightarrow>
          reportedErrors (sourceMetadata r) =
            Some [\<lparr>errorUrl = ''https://a.com/x'', error = ''Blocked by robots.txt''\<rparr>]
          \<and> subrequestsUsed (sourceMetadata r) = 0
          \<and> stoppedBySubrequestLimit (sourceMetadata r) = False)"
  by code_simp

text \<open>
  C2, as the claim states it (the queue rejects a duplicate also at seeding time):
  seeding pushes every seed without a check, so two seeds with the same normal form are
  both in the queue.
\<close>

theorem seeding_enqueues_duplicates:
  "map url (queue (seedQueue seedTwice initialState)) = [''https://a.com/x'', ''https://a.com/x'']"
  by code_simp

text \<open>
  C2, amended. After any crawl no URL appears more than once in the accepted-page list
  nor more than once in the error list. The visited set is the authority: a queue entry
  whose URL has been visited is dropped and nothing else changes. \<open>queueLinks\<close> never
  inserts a URL that has been visited or is in the queue already, so it keeps a
  duplicate-free queue duplicate-free and leaves the visited set alone. (Seeding makes
  no such check.)
\<close>

theorem crawl_dedup:
  "(crawl fetch this = Inr r \<longrightarrow>
      distinct (map path (files r))
      \<and> (case reportedErrors (sourceMetadata r) of
            None \<Rightarrow> True
          | Some es \<Rightarrow> distinct (map errorUrl es)))
   \<and> (sortQueue (queue s) = nxt # rest \<and> url nxt \<in> visited s \<longrightarrow>
        crawlStep fetch this s = Inr (s\<lparr>queue := rest\<rparr>))
   \<and> (queueLinks cfg t ls sourceUrl sourceDepth = Some t' \<and> distinct (map url (queue t)) \<longrightarrow>
        distinct (map url (queue t')) \<and> visited t' = visited t
        \<and> set (queue t') \<subseteq> set (queue t) \<union> {q. url q \<notin> visited t})"
proof (intro conjI impI)
  assume "crawl fetch this = Inr r"
  then obtain e where r: "r = buildResult this e" and inv: "dedupInv e"
    by (rule crawl_final)
  from inv show "distinct (map path (files r))"
    by (simp add: r buildResult_fields dedupInv_def)
  from inv show "case reportedErrors (sourceMetadata r) of
            None \<Rightarrow> True
          | Some es \<Rightarrow> distinct (map errorUrl es)"
    by (simp add: r buildResult_fields dedupInv_def)
next
  assume "sortQueue (queue s) = nxt # rest \<and> url nxt \<in> visited s"
  then show "crawlStep fetch this s = Inr (s\<lparr>queue := rest\<rparr>)"
    by (simp add: crawlStep_def)
next
  assume a: "queueLinks cfg t ls sourceUrl sourceDepth = Some t' \<and> distinct (map url (queue t))"
  then obtain src where t': "t' = foldl (queueLink cfg (origin src) sourceUrl sourceDepth) t ls"
    by (auto simp: queueLinks_def split: option.splits)
  from a have d: "distinct (map url (queue t))" by simp
  note f = queueLinks_fold_dedup [OF d, of cfg "origin src" sourceUrl sourceDepth ls]
  from f show "distinct (map url (queue t'))" by (simp add: t')
  from f show "visited t' = visited t" by (simp add: t')
  from f show "set (queue t') \<subseteq> set (queue t) \<union> {q. url q \<notin> visited t}" by (simp add: t')
qed

text \<open>An instance: the crawl of the page with three links, the state \<open>revisit\<close>, and a
  page that names the same link twice.\<close>

theorem crawl_dedup_witness:
  "crawl sixtyTokens threeLinks = Inr (projr (crawl sixtyTokens threeLinks))
   \<and> distinct (map path (files (projr (crawl sixtyTokens threeLinks))))
   \<and> crawlStep sixtyTokens threeLinks revisit = Inr (revisit\<lparr>queue := []\<rparr>)
   \<and> distinct (map url (queue (the (queueLinks (config threeLinks) initialState
        [''https://a.com/docs/a'', ''https://a.com/docs/a''] ''https://a.com/'' 0))))"
proof -
  have run: "crawl sixtyTokens threeLinks = Inr (projr (crawl sixtyTokens threeLinks))"
    using threeLinks_runs by simp
  have ql: "queueLinks (config threeLinks) initialState
     [''https://a.com/docs/a'', ''https://a.com/docs/a''] ''https://a.com/'' 0
     = Some (the (queueLinks (config threeLinks) initialState
        [''https://a.com/docs/a'', ''https://a.com/docs/a''] ''https://a.com/'' 0))"
    using threeLinks_queueLinks by simp
  note th = crawl_dedup [of sixtyTokens threeLinks "projr (crawl sixtyTokens threeLinks)"
      revisit "\<lparr>url = ''https://a.com/x'', score = 100, depth = 0, referrer = []\<rparr>" "[]"
      "config threeLinks" initialState "[''https://a.com/docs/a'', ''https://a.com/docs/a'']"
      "''https://a.com/''" 0
      "the (queueLinks (config threeLinks) initialState
        [''https://a.com/docs/a'', ''https://a.com/docs/a''] ''https://a.com/'' 0)"]
  from th run have 1: "distinct (map path (files (projr (crawl sixtyTokens threeLinks))))"
    by blast
  from th revisit_queue have 2: "crawlStep sixtyTokens threeLinks revisit = Inr (revisit\<lparr>queue := []\<rparr>)"
    by simp
  from th ql threeLinks_queueLinks
  have 3: "distinct (map url (queue (the (queueLinks (config threeLinks) initialState
        [''https://a.com/docs/a'', ''https://a.com/docs/a''] ''https://a.com/'' 0))))"
    by blast
  from run 1 2 3 show ?thesis by blast
qed

text \<open>
  C3. The loop runs a turn exactly while the token total is below the target, the queue
  is not empty, fewer than \<open>maxPages\<close> pages are accepted and, when a cap is configured,
  the subrequest count is below it; so when a crawl returns, one of the four has failed.
  The token total is the sum of the accepted pages' estimates, and it was below the
  target before the last page was accepted. With a target of 100 tokens, no minimum per page and three seeds of 60 tokens each,
  the crawl accepts exactly two pages (120 tokens) and leaves the third seed queued.
\<close>

theorem crawl_loop_conditions:
  "loopCond cfg s =
     (int (currentTokens s) < targetTokens cfg \<and> queue s \<noteq> []
      \<and> int (length (loadedContent s)) < maxPages cfg
      \<and> (case maxSubrequests cfg of
            None \<Rightarrow> True
          | Some maxSubs \<Rightarrow> int (subrequestCount s) < maxSubs))
   \<and> crawlLoop fetch this s =
       (if loopCond (config this) s
        then (case crawlStep fetch this s of
                Inl e \<Rightarrow> Inl e
              | Inr s' \<Rightarrow> crawlLoop fetch this s')
        else Inr s)
   \<and> (crawl fetch this = Inr r \<longrightarrow>
        (targetTokens (config this) \<le> totalTokens r
         \<or> pagesInQueue (sourceMetadata r) = 0
         \<or> maxPages (config this) \<le> fileCount r
         \<or> (case maxSubrequests (config this) of
               None \<Rightarrow> False
             | Some maxSubs \<Rightarrow> maxSubs \<le> int (subrequestsUsed (sourceMetadata r))))
        \<and> totalTokens r = int (sum_list (map tokenEstimate (files r)))
        \<and> (files r = []
             \<or> int (sum_list (map tokenEstimate (butlast (files r)))) < targetTokens (config this)))
   \<and> (case crawl sixtyTokens (crawlerFor threeSeeds) of
        Inl e \<Rightarrow> False
      | Inr r \<Rightarrow> fileCount r = 2 \<and> totalTokens r = 120 \<and> pagesInQueue (sourceMetadata r) = 1)"
proof (intro conjI impI)
  show "loopCond cfg s =
     (int (currentTokens s) < targetTokens cfg \<and> queue s \<noteq> []
      \<and> int (length (loadedContent s)) < maxPages cfg
      \<and> (case maxSubrequests cfg of
            None \<Rightarrow> True
          | Some maxSubs \<Rightarrow> int (subrequestCount s) < maxSubs))"
    by (simp add: loopCond_def)
  show "crawlLoop fetch this s =
       (if loopCond (config this) s
        then (case crawlStep fetch this s of
                Inl e \<Rightarrow> Inl e
              | Inr s' \<Rightarrow> crawlLoop fetch this s')
        else Inr s)"
    by (rule crawlLoop.simps)
  show "case crawl sixtyTokens (crawlerFor threeSeeds) of
        Inl e \<Rightarrow> False
      | Inr r \<Rightarrow> fileCount r = 2 \<and> totalTokens r = 120 \<and> pagesInQueue (sourceMetadata r) = 1"
    by (rule threeSeeds_example)
next
  assume "crawl fetch this = Inr r"
  then obtain e where r: "r = buildResult this e" and ex: "\<not> loopCond (config this) e"
    and tok: "tokenInv (config this) e"
    by (rule crawl_final)
  from ex show "targetTokens (config this) \<le> totalTokens r
         \<or> pagesInQueue (sourceMetadata r) = 0
         \<or> maxPages (config this) \<le> fileCount r
         \<or> (case maxSubrequests (config this) of
               None \<Rightarrow> False
             | Some maxSubs \<Rightarrow> maxSubs \<le> int (subrequestsUsed (sourceMetadata r)))"
    by (cases "maxSubrequests (config this)")
       (auto simp: r buildResult_fields loopCond_def)
  from tok show "totalTokens r = int (sum_list (map tokenEstimate (files r)))"
    by (simp add: r buildResult_fields tokenInv_def)
  from tok show "files r = []
             \<or> int (sum_list (map tokenEstimate (butlast (files r)))) < targetTokens (config this)"
    by (simp add: r buildResult_fields buildResult_butlast tokenInv_def)
qed

text \<open>An instance: the crawl of the three seeds returns with the target reached.\<close>

theorem crawl_loop_conditions_witness:
  "crawl sixtyTokens (crawlerFor threeSeeds)
     = Inr (projr (crawl sixtyTokens (crawlerFor threeSeeds)))
   \<and> targetTokens (config (crawlerFor threeSeeds))
       \<le> totalTokens (projr (crawl sixtyTokens (crawlerFor threeSeeds)))
   \<and> fileCount (projr (crawl sixtyTokens (crawlerFor threeSeeds))) = 2"
proof -
  have run: "crawl sixtyTokens (crawlerFor threeSeeds)
     = Inr (projr (crawl sixtyTokens (crawlerFor threeSeeds)))"
    using threeSeeds_runs by simp
  note th = crawl_loop_conditions [where fetch = sixtyTokens and this = "crawlerFor threeSeeds"
      and r = "projr (crawl sixtyTokens (crawlerFor threeSeeds))"]
  from th have ex: "case crawl sixtyTokens (crawlerFor threeSeeds) of
        Inl e \<Rightarrow> False
      | Inr r \<Rightarrow> fileCount r = 2 \<and> totalTokens r = 120 \<and> pagesInQueue (sourceMetadata r) = 1"
    by blast
  from ex run have v: "fileCount (projr (crawl sixtyTokens (crawlerFor threeSeeds))) = 2
      \<and> totalTokens (projr (crawl sixtyTokens (crawlerFor threeSeeds))) = 120"
    by (cases "crawl sixtyTokens (crawlerFor threeSeeds)") simp_all
  have "targetTokens (config (crawlerFor threeSeeds)) = 100"
    by (simp add: crawlerFor_def threeSeeds_def)
  with run v show ?thesis by simp
qed

text \<open>
  C4, as the claim states it (the flag is true exactly when the cap, rather than the
  token target, ended the crawl): with a target of 50 tokens, a cap of one subrequest and
  one seed of 60 tokens, the crawl ends with the target reached, an empty queue and no
  error, and the flag is set.
\<close>

theorem flag_set_although_target_reached:
  "(case crawl sixtyTokens (crawlerFor targetReached) of
      Inl e \<Rightarrow> False
    | Inr r \<Rightarrow>
        stoppedBySubrequestLimit (sourceMetadata r) = True
        \<and> targetTokens (config (crawlerFor targetReached)) \<le> totalTokens r
        \<and> pagesInQueue (sourceMetadata r) = 0
        \<and> reportedErrors (sourceMetadata r) = None)"
  by code_simp

text \<open>
  C4, amended. \<open>stoppedBySubrequestLimit\<close> is true exactly when a cap is configured and
  the subrequest count has reached it when the crawl returns, whether or not the token
  target or the page cap has been reached as well. The accepted pages never outnumber
  the counted subrequests, which never exceed the cap, so a cap of 1 gives at most one
  file; and when the crawl returns below the token target, with a non-empty queue and
  below the page cap, the flag is true. With a cap of 1 and a seed page that links to
  three pages of its own domain, the flag is true and one file is returned.
\<close>

theorem subrequest_flag:
  "(crawl fetch this = Inr r \<longrightarrow>
      stoppedBySubrequestLimit (sourceMetadata r)
        = (case maxSubrequests (config this) of
             None \<Rightarrow> False
           | Some maxSubs \<Rightarrow> maxSubs \<le> int (subrequestsUsed (sourceMetadata r)))
      \<and> fileCount r \<le> int (subrequestsUsed (sourceMetadata r))
      \<and> (case maxSubrequests (config this) of
            None \<Rightarrow> True
          | Some maxSubs \<Rightarrow> int (subrequestsUsed (sourceMetadata r)) \<le> max 0 maxSubs)
      \<and> (if maxSubrequests (config this) = Some 1 then fileCount r \<le> 1 else True)
      \<and> (if totalTokens r < targetTokens (config this) \<and> pagesInQueue (sourceMetadata r) \<noteq> 0
             \<and> fileCount r < maxPages (config this)
          then stoppedBySubrequestLimit (sourceMetadata r) else True))
   \<and> (case crawl sixtyTokens threeLinks of
        Inl e \<Rightarrow> False
      | Inr r \<Rightarrow>
          stoppedBySubrequestLimit (sourceMetadata r) = True \<and> fileCount r = 1
          \<and> pagesInQueue (sourceMetadata r) = 3)"
proof (intro conjI impI)
  show "case crawl sixtyTokens threeLinks of
        Inl e \<Rightarrow> False
      | Inr r \<Rightarrow>
          stoppedBySubrequestLimit (sourceMetadata r) = True \<and> fileCount r = 1
          \<and> pagesInQueue (sourceMetadata r) = 3"
    by (rule threeLinks_example)
next
  assume "crawl fetch this = Inr r"
  then obtain e where r: "r = buildResult this e" and c: "countInv (config this) e"
    and ex: "\<not> loopCond (config this) e"
    by (rule crawl_final)
  show "stoppedBySubrequestLimit (sourceMetadata r)
        = (case maxSubrequests (config this) of
             None \<Rightarrow> False
           | Some maxSubs \<Rightarrow> maxSubs \<le> int (subrequestsUsed (sourceMetadata r)))"
    by (simp add: r buildResult_fields split: option.splits)
  from c show le: "fileCount r \<le> int (subrequestsUsed (sourceMetadata r))"
    by (simp add: r buildResult_fields countInv_def)
  from c show cap: "case maxSubrequests (config this) of
            None \<Rightarrow> True
          | Some maxSubs \<Rightarrow> int (subrequestsUsed (sourceMetadata r)) \<le> max 0 maxSubs"
    by (simp add: r buildResult_fields countInv_def split: option.splits)
  from le cap show "if maxSubrequests (config this) = Some 1 then fileCount r \<le> 1 else True"
    by (cases "maxSubrequests (config this)") auto
  from ex show "if totalTokens r < targetTokens (config this)
             \<and> pagesInQueue (sourceMetadata r) \<noteq> 0
             \<and> fileCount r < maxPages (config this)
          then stoppedBySubrequestLimit (sourceMetadata r) else True"
    by (cases "maxSubrequests (config this)")
       (auto simp: r buildResult_fields loopCond_def)
qed

text \<open>An instance: the crawl of the page with three links, under a cap of one subrequest.\<close>

theorem subrequest_flag_witness:
  "crawl sixtyTokens threeLinks = Inr (projr (crawl sixtyTokens threeLinks))
   \<and> maxSubrequests (config threeLinks) = Some 1
   \<and> stoppedBySubrequestLimit (sourceMetadata (projr (crawl sixtyTokens threeLinks)))
   \<and> fileCount (projr (crawl sixtyTokens threeLinks)) \<le> 1"
proof -
  have run: "crawl sixtyTokens threeLinks = Inr (projr (crawl sixtyTokens threeLinks))"
    using threeLinks_runs by simp
  have cap: "maxSubrequests (config threeLinks) = Some 1"
    by (simp add: threeLinks_def)
  note th = subrequest_flag [where fetch = sixtyTokens and this = threeLinks
      and r = "projr (crawl sixtyTokens threeLinks)"]
  from th run cap have 1: "fileCount (projr (crawl sixtyTokens threeLinks)) \<le> 1"
    by simp
  from th have "case crawl sixtyTokens threeLinks of
        Inl e \<Rightarrow> False
      | Inr r \<Rightarrow>
          stoppedBySubrequestLimit (sourceMetadata r) = True \<and> fileCount r = 1
          \<and> pagesInQueue (sourceMetadata r) = 3"
    by blast
  with run have 2: "stoppedBySubrequestLimit (sourceMetadata (projr (crawl sixtyTokens threeLinks)))"
    by (cases "crawl sixtyTokens threeLinks") simp_all
  from run cap 1 2 show ?thesis by blast
qed

text \<open>
  C5. When the entry taken from the queue has not been visited, robots (if respected)
  allow it, and the page loads with a token estimate below \<open>minTokensPerPage\<close>, the turn
  leaves the accepted pages and the token total as they were, enqueues nothing (the
  queue is what was left after the entry was taken) and marks the URL visited; the
  subrequest is counted.
\<close>

theorem page_below_threshold_is_discarded:
  "sortQueue (queue s) = nxt # rest \<and> url nxt \<notin> visited s
   \<and> (if respectRobotsTxt (config this)
       then checkRobots fetch this
              (s\<lparr>queue := rest, visited := insert (url nxt) (visited s)\<rparr>) (url nxt)
            = Some (True, s\<lparr>queue := rest, visited := insert (url nxt) (visited s),
                             robotsCache := cache\<rparr>)
       else cache = robotsCache s)
   \<and> loadPage fetch this (url nxt) = Inr page
   \<and> int (tokenEstimate page) < minTokensPerPage (config this)
   \<longrightarrow> crawlStep fetch this s =
         Inr (s\<lparr>queue := rest, visited := insert (url nxt) (visited s), robotsCache := cache,
                subrequestCount := subrequestCount s + 1\<rparr>)
       \<and> (\<forall>s'. crawlStep fetch this s = Inr s' \<longrightarrow>
             loadedContent s' = loadedContent s \<and> currentTokens s' = currentTokens s
             \<and> queue s' = rest \<and> visited s' = insert (url nxt) (visited s))"
proof (intro impI)
  assume a: "sortQueue (queue s) = nxt # rest \<and> url nxt \<notin> visited s
   \<and> (if respectRobotsTxt (config this)
       then checkRobots fetch this
              (s\<lparr>queue := rest, visited := insert (url nxt) (visited s)\<rparr>) (url nxt)
            = Some (True, s\<lparr>queue := rest, visited := insert (url nxt) (visited s),
                             robotsCache := cache\<rparr>)
       else cache = robotsCache s)
   \<and> loadPage fetch this (url nxt) = Inr page
   \<and> int (tokenEstimate page) < minTokensPerPage (config this)"
  let ?s3 = "s\<lparr>queue := rest, visited := insert (url nxt) (visited s), robotsCache := cache\<rparr>"
  from a have fa: "fetchAndAccept fetch this nxt ?s3
      = ?s3\<lparr>subrequestCount := subrequestCount s + 1\<rparr>"
    by (simp add: fetchAndAccept_def Let_def)
  have st: "crawlStep fetch this s = Inr (fetchAndAccept fetch this nxt ?s3)"
  proof (cases "respectRobotsTxt (config this)")
    case True
    with a show ?thesis by (simp add: crawlStep_def Let_def)
  next
    case False
    with a have "?s3 = s\<lparr>queue := rest, visited := insert (url nxt) (visited s)\<rparr>" by simp
    with a False show ?thesis by (simp add: crawlStep_def Let_def)
  qed
  have eq: "crawlStep fetch this s =
         Inr (s\<lparr>queue := rest, visited := insert (url nxt) (visited s), robotsCache := cache,
                subrequestCount := subrequestCount s + 1\<rparr>)"
    by (simp add: st fa)
  then show "crawlStep fetch this s =
         Inr (s\<lparr>queue := rest, visited := insert (url nxt) (visited s), robotsCache := cache,
                subrequestCount := subrequestCount s + 1\<rparr>)
       \<and> (\<forall>s'. crawlStep fetch this s = Inr s' \<longrightarrow>
             loadedContent s' = loadedContent s \<and> currentTokens s' = currentTokens s
             \<and> queue s' = rest \<and> visited s' = insert (url nxt) (visited s))"
    by auto
qed

text \<open>An instance: a page of 60 tokens under a minimum of 500.\<close>

theorem page_below_threshold_witness:
  "crawlStep sixtyTokens (crawlerFor tinyPages) (seedQueue tinyPages initialState) =
     Inr ((seedQueue tinyPages initialState)
            \<lparr>queue := [],
             visited := insert ''https://a.com/x'' (visited (seedQueue tinyPages initialState)),
             robotsCache := robotsCache (seedQueue tinyPages initialState),
             subrequestCount := subrequestCount (seedQueue tinyPages initialState) + 1\<rparr>)
   \<and> int (tokenEstimate (projr (loadPage sixtyTokens (crawlerFor tinyPages) ''https://a.com/x'')))
       < minTokensPerPage (config (crawlerFor tinyPages))"
proof -
  from tinyPages_loads have lp: "loadPage sixtyTokens (crawlerFor tinyPages) ''https://a.com/x''
      = Inr (projr (loadPage sixtyTokens (crawlerFor tinyPages) ''https://a.com/x''))"
    by simp
  from tinyPages_tokens tinyPages_config have lt: "int (tokenEstimate (projr (loadPage sixtyTokens (crawlerFor tinyPages)
      ''https://a.com/x''))) < minTokensPerPage (config (crawlerFor tinyPages))"
    by simp
  have hyp: "sortQueue (queue (seedQueue tinyPages initialState))
       = \<lparr>url = ''https://a.com/x'', score = 100, depth = 0, referrer = []\<rparr> # []
    \<and> url \<lparr>url = ''https://a.com/x'', score = 100, depth = 0, referrer = []\<rparr>
        \<notin> visited (seedQueue tinyPages initialState)
    \<and> (if respectRobotsTxt (config (crawlerFor tinyPages))
       then checkRobots sixtyTokens (crawlerFor tinyPages)
              ((seedQueue tinyPages initialState)\<lparr>queue := [],
                 visited := insert (url \<lparr>url = ''https://a.com/x'', score = 100, depth = 0, referrer = []\<rparr>)
                   (visited (seedQueue tinyPages initialState))\<rparr>)
              (url \<lparr>url = ''https://a.com/x'', score = 100, depth = 0, referrer = []\<rparr>)
            = Some (True, (seedQueue tinyPages initialState)\<lparr>queue := [],
                 visited := insert (url \<lparr>url = ''https://a.com/x'', score = 100, depth = 0, referrer = []\<rparr>)
                   (visited (seedQueue tinyPages initialState)),
                 robotsCache := robotsCache (seedQueue tinyPages initialState)\<rparr>)
       else robotsCache (seedQueue tinyPages initialState) = robotsCache (seedQueue tinyPages initialState))
    \<and> loadPage sixtyTokens (crawlerFor tinyPages)
          (url \<lparr>url = ''https://a.com/x'', score = 100, depth = 0, referrer = []\<rparr>)
        = Inr (projr (loadPage sixtyTokens (crawlerFor tinyPages) ''https://a.com/x''))
    \<and> int (tokenEstimate (projr (loadPage sixtyTokens (crawlerFor tinyPages) ''https://a.com/x'')))
        < minTokensPerPage (config (crawlerFor tinyPages))"
    using tinyPages_queue tinyPages_unvisited tinyPages_config lp lt by simp
  note th = page_below_threshold_is_discarded [where fetch = sixtyTokens
      and this = "crawlerFor tinyPages" and s = "seedQueue tinyPages initialState"
      and nxt = "\<lparr>url = ''https://a.com/x'', score = 100, depth = 0, referrer = []\<rparr>"
      and rest = "[]" and cache = "robotsCache (seedQueue tinyPages initialState)"
      and page = "projr (loadPage sixtyTokens (crawlerFor tinyPages) ''https://a.com/x'')",
      rule_format, OF hyp]
  from th [THEN conjunct1] lt show ?thesis by simp
qed

text \<open>
  C6 (\<open>isAllowed\<close> blocks a URL whose path a disallow pattern matches, where a \<open>$\<close> at
  the end of a pattern anchors it to the end of the path). \<open>pathMatches\<close> escapes the
  \<open>$\<close> with the other syntax characters, so the pattern \<open>/private$\<close> asks for a literal
  dollar sign, anywhere in the path: \<open>/private\<close> is allowed although the rule
  \<open>Disallow: /private$\<close> has been loaded for every user agent.
\<close>

theorem end_anchor_is_not_honoured:
  "rules (load anchoredSite (new_RobotsChecker ''https://x.com'' ''TestBot/1.0''))
     = [\<lparr>userAgent = ''*'', allow = [], disallow = [''/private$'']\<rparr>]
   \<and> isAllowed (load anchoredSite (new_RobotsChecker ''https://x.com'' ''TestBot/1.0''))
        ''https://x.com/private'' = Some True
   \<and> pathMatches ''/private'' ''/private$'' = False
   \<and> pathMatches ''/x/private$'' ''/private$'' = True"
  by code_simp

end
